theory Spec2Isabelle
  imports Main
begin

section \<open>The Next.js project crawler (nextjs_crawler.py)\<close>

text \<open>
  A shallow embedding of \<^verbatim>\<open>src/nextjs_crawler.py\<close>. Python strings are modelled as
  \<^typ>\<open>string\<close>, a character being a Unicode code point below 256 (ASCII and Latin-1):
  \<^term>\<open>CHR 0xE9\<close> is the letter e with an acute accent. Strings with code points from
  256 on are outside the model. The regular expressions are \<^verbatim>\<open>str\<close> patterns without
  flags, so their classes are the Unicode ones, written out here for these code
  points. A node's \<^verbatim>\<open>node_type\<close> is one of the four tags the crawler creates.
\<close>

subsection \<open>Characters and small string helpers\<close>

definition newline :: char where
  "newline = CHR 0x0A"

definition dquote :: char where
  "dquote = CHR 0x22"

text \<open>
  Python's \<^verbatim>\<open>\w\<close> for a \<^verbatim>\<open>str\<close> pattern: the code points that are alphanumeric for
  Unicode, and the underscore. Below 256 these are the ASCII digits and letters, the
  underscore, the ordinal indicators, the superscript digits, the micro sign, the
  vulgar fractions, and the Latin-1 letters (all of \<open>0xC0\<close> to \<open>0xFF\<close> but the
  multiplication and division signs).
\<close>

definition is_word_char :: "char \<Rightarrow> bool" where
  "is_word_char c =
     (let n = (of_char c :: nat)
      in (48 \<le> n \<and> n \<le> 57) \<or> (65 \<le> n \<and> n \<le> 90) \<or> n = 95 \<or> (97 \<le> n \<and> n \<le> 122)
         \<or> n = 170 \<or> (178 \<le> n \<and> n \<le> 179) \<or> n = 181 \<or> (185 \<le> n \<and> n \<le> 186)
         \<or> (188 \<le> n \<and> n \<le> 190) \<or> (192 \<le> n \<and> n \<le> 214) \<or> (216 \<le> n \<and> n \<le> 246)
         \<or> (248 \<le> n \<and> n \<le> 255))"

text \<open>\<^verbatim>\<open>s.replace(old, new)\<close> for one-character \<^verbatim>\<open>old\<close> and \<^verbatim>\<open>new\<close>.\<close>

definition str_replace :: "char \<Rightarrow> char \<Rightarrow> string \<Rightarrow> string" where
  "str_replace old new s = map (\<lambda>c. if c = old then new else c) s"

text \<open>\<^verbatim>\<open>re.sub(r'[^\w]', '_', s)\<close>: every character outside \<^verbatim>\<open>\w\<close> becomes an underscore.\<close>

definition re_sub_nonword :: "string \<Rightarrow> string" where
  "re_sub_nonword s = map (\<lambda>c. if is_word_char c then c else CHR ''_'') s"

text \<open>\<^verbatim>\<open>s.endswith(w)\<close>.\<close>

definition endswith :: "string \<Rightarrow> string \<Rightarrow> bool" where
  "endswith s w = (length w \<le> length s \<and> drop (length s - length w) s = w)"

text \<open>\<^verbatim>\<open>sep.join(xs)\<close>.\<close>

fun str_join :: "string \<Rightarrow> string list \<Rightarrow> string" where
  "str_join sep [] = []"
| "str_join sep [x] = x"
| "str_join sep (x # y # ys) = x @ sep @ str_join sep (y # ys)"

subsection \<open>The classifier\<close>

text \<open>
  \<^verbatim>\<open>re.search(lit + r'\.(js|jsx|ts|tsx)$', filename)\<close> for a literal word \<^verbatim>\<open>lit\<close>: the
  search is not anchored on the left, and \<^verbatim>\<open>$\<close> holds at the end of the string and
  just before a newline that ends the string.
\<close>

definition source_exts :: "string list" where
  "source_exts = [''js'', ''jsx'', ''ts'', ''tsx'']"

definition at_dollar :: "string \<Rightarrow> string \<Rightarrow> bool" where
  "at_dollar s w = (endswith s w \<or> endswith s (w @ [newline]))"

definition re_search_basename :: "string \<Rightarrow> string \<Rightarrow> bool" where
  "re_search_basename lit filename =
     list_ex (\<lambda>ext. at_dollar filename (lit @ ''.'' @ ext)) source_exts"

definition PAGE_PATTERNS :: "(string \<Rightarrow> bool) list" where
  "PAGE_PATTERNS = [re_search_basename ''page'']"

definition LAYOUT_PATTERNS :: "(string \<Rightarrow> bool) list" where
  "LAYOUT_PATTERNS = [re_search_basename ''layout'']"

definition is_page_file :: "string \<Rightarrow> bool" where
  "is_page_file filename = list_ex (\<lambda>pattern. pattern filename) PAGE_PATTERNS"

definition is_layout_file :: "string \<Rightarrow> bool" where
  "is_layout_file filename = list_ex (\<lambda>pattern. pattern filename) LAYOUT_PATTERNS"

text \<open>
  \<^verbatim>\<open>re.search(r'\[(.+?)\]', s)\<close>, returning group 1 of the leftmost match.
  After an opening bracket, \<^verbatim>\<open>.+?\<close> takes at least one character other than a
  newline and then as few as possible up to a closing bracket; when that fails the
  search moves on to the next position.
\<close>

fun lazy_upto_close :: "string \<Rightarrow> string \<Rightarrow> string option" where
  "lazy_upto_close acc [] = None"
| "lazy_upto_close acc (c # cs) =
     (if c = CHR '']'' then Some acc
      else if c = newline then None
      else lazy_upto_close (acc @ [c]) cs)"

fun match_group_here :: "string \<Rightarrow> string option" where
  "match_group_here [] = None"
| "match_group_here (c # cs) = (if c = newline then None else lazy_upto_close [c] cs)"

fun DYNAMIC_ROUTE_PATTERN :: "string \<Rightarrow> string option" where
  "DYNAMIC_ROUTE_PATTERN [] = None"
| "DYNAMIC_ROUTE_PATTERN (c # cs) =
     (if c = CHR ''[''
      then (case match_group_here cs of
              Some g \<Rightarrow> Some g
            | None \<Rightarrow> DYNAMIC_ROUTE_PATTERN cs)
      else DYNAMIC_ROUTE_PATTERN cs)"

definition is_dynamic_route :: "string \<Rightarrow> bool" where
  "is_dynamic_route dirname = (DYNAMIC_ROUTE_PATTERN dirname \<noteq> None)"

subsection \<open>Nodes\<close>

datatype node_type = Page | Layout | Dynamic | Folder

datatype NextjsNode =
  Node (name: string) (path: string) (node_type: node_type)
       (children: "NextjsNode list") (has_component: bool)

text \<open>The constructor \<^verbatim>\<open>NextjsNode.__init__\<close>.\<close>

definition NextjsNode_init :: "string \<Rightarrow> string \<Rightarrow> node_type \<Rightarrow> NextjsNode" where
  "NextjsNode_init nm p ty = Node nm p ty [] (ty = Page \<or> ty = Layout)"

definition get_mermaid_id :: "NextjsNode \<Rightarrow> string" where
  "get_mermaid_id node =
     (let clean_path = str_replace (CHR ''-'') (CHR ''_'')
                         (str_replace (CHR ''.'') (CHR ''_'')
                            (str_replace (CHR ''/'') (CHR ''_'') (path node)));
          clean_path = re_sub_nonword clean_path
      in clean_path)"

definition get_mermaid_label :: "NextjsNode \<Rightarrow> string" where
  "get_mermaid_label node =
     (case node_type node of
        Page \<Rightarrow> name node
      | Layout \<Rightarrow> name node
      | Dynamic \<Rightarrow>
          (case DYNAMIC_ROUTE_PATTERN (name node) of
             Some g \<Rightarrow> ''['' @ g @ '']''
           | None \<Rightarrow> name node)
      | Folder \<Rightarrow> name node)"

definition get_mermaid_style :: "NextjsNode \<Rightarrow> string" where
  "get_mermaid_style node =
     (let node_id = get_mermaid_id node
      in case node_type node of
           Page \<Rightarrow> ''style '' @ node_id @ '' fill:#9f9,stroke:#6c6,stroke-width:1px''
         | Layout \<Rightarrow> ''style '' @ node_id @ '' fill:#ff9,stroke:#cc6,stroke-width:1px''
         | Dynamic \<Rightarrow> ''style '' @ node_id @ '' fill:#9cf,stroke:#69c,stroke-width:1px''
         | Folder \<Rightarrow> '''')"

text \<open>
  \<^verbatim>\<open>has_component_in_subtree\<close>: the node's own flag first, then the children from
  left to right, stopping at the first subtree that holds a component.
\<close>

fun has_component_in_subtree :: "NextjsNode \<Rightarrow> bool"
  and any_child_has_component :: "NextjsNode list \<Rightarrow> bool" where
  "has_component_in_subtree (Node nm p ty cs hc) =
     (if hc then True else any_child_has_component cs)"
| "any_child_has_component [] = False"
| "any_child_has_component (child # rest) =
     (if has_component_in_subtree child then True else any_child_has_component rest)"

subsection \<open>Pruning\<close>

text \<open>
  \<^verbatim>\<open>prune_tree\<close> rebuilds the child list of a node from the children that hold a
  component, each pruned in turn, and returns the node.
\<close>

fun prune_tree :: "NextjsNode \<Rightarrow> NextjsNode"
  and prune_children :: "NextjsNode list \<Rightarrow> NextjsNode list" where
  "prune_tree (Node nm p ty cs hc) = Node nm p ty (prune_children cs) hc"
| "prune_children [] = []"
| "prune_children (child # rest) =
     (if has_component_in_subtree child
      then prune_tree child # prune_children rest
      else prune_children rest)"

subsection \<open>The diagram emitter\<close>

text \<open>The three lists \<^verbatim>\<open>generate_mermaid\<close> appends to.\<close>

record emitter =
  mermaid_lines :: "string list"
  edges :: "string list"
  styles :: "string list"

text \<open>
  The inner loop over \<^verbatim>\<open>node.children\<close>: one edge line per child, and the child
  goes to the back of the queue.
\<close>

fun visit_children ::
  "string \<Rightarrow> NextjsNode list \<Rightarrow> string list \<times> NextjsNode list \<Rightarrow> string list \<times> NextjsNode list" where
  "visit_children node_id [] (es, queue) = (es, queue)"
| "visit_children node_id (child # rest) (es, queue) =
     (let child_id = get_mermaid_id child
      in visit_children node_id rest
           (es @ [''    '' @ node_id @ '' --> '' @ child_id], queue @ [child]))"

text \<open>
  The \<^verbatim>\<open>while queue:\<close> loop. A node whose identifier is already in \<^verbatim>\<open>visited\<close> is
  dropped (\<^verbatim>\<open>continue\<close>); otherwise it is declared, styled when its style is not
  empty, and its children are queued.
\<close>

function bfs_loop :: "NextjsNode list \<Rightarrow> string set \<Rightarrow> emitter \<Rightarrow> emitter" where
  "bfs_loop [] visited acc = acc"
| "bfs_loop (node # queue) visited acc =
     (let node_id = get_mermaid_id node
      in if node_id \<in> visited then bfs_loop queue visited acc
         else
           let visited' = insert node_id visited;
               acc1 = acc\<lparr>mermaid_lines := mermaid_lines acc @
                        [''    '' @ node_id @ ''['' @ [dquote] @ get_mermaid_label node @ [dquote] @ '']'']\<rparr>;
               style = get_mermaid_style node;
               acc2 = (if style \<noteq> [] then acc1\<lparr>styles := styles acc1 @ [''    '' @ style]\<rparr>
                       else acc1);
               (es, queue') = visit_children node_id (children node) (edges acc2, queue)
           in bfs_loop queue' visited' (acc2\<lparr>edges := es\<rparr>))"
  by pat_completeness auto
termination
proof (relation "measure (\<lambda>(queue, visited, acc). sum_list (map size queue))")
  show "wf (measure (\<lambda>(queue, visited, acc). sum_list (map size queue)))"
    by simp
next
  fix node :: NextjsNode and queue :: "NextjsNode list" and visited :: "string set"
    and acc :: emitter and node_id
  show "((queue, visited, acc), node # queue, visited, acc)
          \<in> measure (\<lambda>(queue, visited, acc). sum_list (map size queue))"
    by (cases node) simp
next
  fix node :: NextjsNode and queue :: "NextjsNode list" and visited :: "string set"
    and acc acc2 :: emitter and node_id visited' acc1 style x es queue'
  assume x: "x = visit_children node_id (children node) (edges acc2, queue)"
    and q: "(es, queue') = x"
  have vc: "snd (visit_children i cs (e, q)) = q @ cs" for i cs e q
    by (induction cs arbitrary: e q) (simp_all add: Let_def)
  have "queue' = queue @ children node"
    using x q vc [of node_id "children node" "edges acc2" queue] by (metis snd_conv)
  moreover have "sum_list (map size (children node)) < size node"
    by (cases node) (simp add: size_list_conv_sum_list)
  ultimately show "((queue', visited', acc2\<lparr>edges := es\<rparr>), node # queue, visited, acc)
          \<in> measure (\<lambda>(queue, visited, acc). sum_list (map size queue))"
    by simp
qed

definition generate_mermaid :: "NextjsNode \<Rightarrow> string" where
  "generate_mermaid root_node =
     (let r = bfs_loop [root_node] {}
                \<lparr>mermaid_lines = [''flowchart TD''], edges = [], styles = []\<rparr>
      in str_join [newline] (mermaid_lines r @ edges r @ styles r))"

text \<open>
  The run of the loop as a trace: every node taken from the queue, in order, with
  \<^term>\<open>True\<close> when it passed the \<^verbatim>\<open>visited\<close> check and \<^term>\<open>False\<close> when it was
  dropped.
\<close>

function bfs_trace :: "NextjsNode list \<Rightarrow> string set \<Rightarrow> (NextjsNode \<times> bool) list" where
  "bfs_trace [] visited = []"
| "bfs_trace (node # queue) visited =
     (if get_mermaid_id node \<in> visited then (node, False) # bfs_trace queue visited
      else (node, True)
             # bfs_trace (queue @ children node) (insert (get_mermaid_id node) visited))"
  by pat_completeness auto
termination
proof (relation "measure (\<lambda>(queue, visited). sum_list (map size queue))")
  show "wf (measure (\<lambda>(queue, visited). sum_list (map size queue)))"
    by simp
next
  fix node :: NextjsNode and queue :: "NextjsNode list" and visited :: "string set"
  show "((queue, visited), node # queue, visited)
          \<in> measure (\<lambda>(queue, visited). sum_list (map size queue))"
    by (cases node) simp
next
  fix node :: NextjsNode and queue :: "NextjsNode list" and visited :: "string set"
  have "sum_list (map size (children node)) < size node"
    by (cases node) (simp add: size_list_conv_sum_list)
  then show "((queue @ children node, insert (get_mermaid_id node) visited), node # queue, visited)
          \<in> measure (\<lambda>(queue, visited). sum_list (map size queue))"
    by simp
qed

definition dequeued_nodes :: "NextjsNode \<Rightarrow> NextjsNode list" where
  "dequeued_nodes root_node = map fst (bfs_trace [root_node] {})"

definition visited_nodes :: "NextjsNode \<Rightarrow> NextjsNode list" where
  "visited_nodes root_node = map fst (filter snd (bfs_trace [root_node] {}))"

text \<open>The lines of the three sections, for one node.\<close>

definition decl_line :: "NextjsNode \<Rightarrow> string" where
  "decl_line n = ''    '' @ get_mermaid_id n @ ''['' @ [dquote] @ get_mermaid_label n @ [dquote] @ '']''"

definition edge_line :: "NextjsNode \<Rightarrow> NextjsNode \<Rightarrow> string" where
  "edge_line parent child = ''    '' @ get_mermaid_id parent @ '' --> '' @ get_mermaid_id child"

definition style_line :: "NextjsNode \<Rightarrow> string" where
  "style_line n = ''    '' @ get_mermaid_style n"

text \<open>
  Breadth-first order, level by level: of each level, from left to right, the nodes
  whose identifier has not been seen; the next level is made of their children.
\<close>

fun first_seen :: "NextjsNode list \<Rightarrow> string set \<Rightarrow> NextjsNode list" where
  "first_seen [] seen = []"
| "first_seen (n # ns) seen =
     (if get_mermaid_id n \<in> seen then first_seen ns seen
      else n # first_seen ns (insert (get_mermaid_id n) seen))"

function breadth_first :: "NextjsNode list \<Rightarrow> string set \<Rightarrow> NextjsNode list" where
  "breadth_first level seen =
     (if level = [] then []
      else let kept = first_seen level seen
           in kept @ breadth_first (concat (map children kept))
                       (seen \<union> set (map get_mermaid_id kept)))"
  by pat_completeness auto
termination
proof (relation "measure (\<lambda>(level, seen). sum_list (map size level))")
  show "wf (measure (\<lambda>(level, seen). sum_list (map size level)))"
    by simp
next
  fix level :: "NextjsNode list" and seen :: "string set" and kept
  assume ne: "level \<noteq> []" and k: "kept = first_seen level seen"
  have ch: "sum_list (map size (children n)) < size n" for n :: NextjsNode
    by (cases n) (simp add: size_list_conv_sum_list)
  have le: "sum_list (map size (concat (map children ns))) \<le> sum_list (map size ns)"
    for ns :: "NextjsNode list"
  proof (induction ns)
    case Nil
    show ?case by simp
  next
    case (Cons n ns)
    with ch [of n] show ?case by simp
  qed
  have fs: "sum_list (map size (first_seen ns s)) \<le> sum_list (map size ns)"
    for ns :: "NextjsNode list" and s
    by (induction ns arbitrary: s) (auto simp: le_SucI trans_le_add2)
  have "sum_list (map size (concat (map children kept))) < sum_list (map size level)"
  proof (cases kept)
    case Nil
    from ne obtain n ns where "level = n # ns" by (cases level) auto
    moreover have "0 < size n" by (cases n) simp
    ultimately show ?thesis using Nil by simp
  next
    case (Cons n ns)
    have "sum_list (map size (concat (map children kept)))
            < sum_list (map size kept)"
      using Cons ch [of n] le [of ns] by simp
    with fs [of level seen] k show ?thesis by simp
  qed
  then show "((concat (map children kept), seen \<union> set (map get_mermaid_id kept)), level, seen)
          \<in> measure (\<lambda>(level, seen). sum_list (map size level))"
    by simp
qed

subsection \<open>Paths and the directory walk\<close>

text \<open>
  The functions of \<^verbatim>\<open>os.path\<close> the crawler calls, after CPython's \<^verbatim>\<open>posixpath\<close>.
  The current directory \<^verbatim>\<open>os.getcwd()\<close> is a parameter.
\<close>

datatype py_exception = SystemExit nat | ValueError | OSError

fun split_on :: "char \<Rightarrow> string \<Rightarrow> string list" where
  "split_on sep [] = [[]]"
| "split_on sep (c # cs) =
     (if c = sep then [] # split_on sep cs
      else (case split_on sep cs of
              [] \<Rightarrow> [[c]]
            | x # xs \<Rightarrow> (c # x) # xs))"

definition startswith :: "string \<Rightarrow> string \<Rightarrow> bool" where
  "startswith s w = (take (length w) s = w)"

definition os_path_basename :: "string \<Rightarrow> string" where
  "os_path_basename p = rev (takeWhile (\<lambda>c. c \<noteq> CHR ''/'') (rev p))"

definition os_path_dirname :: "string \<Rightarrow> string" where
  "os_path_dirname p =
     (let head = rev (dropWhile (\<lambda>c. c \<noteq> CHR ''/'') (rev p))
      in if head \<noteq> [] \<and> head \<noteq> replicate (length head) (CHR ''/'')
         then rev (dropWhile (\<lambda>c. c = CHR ''/'') (rev head))
         else head)"

definition os_path_join :: "string \<Rightarrow> string \<Rightarrow> string" where
  "os_path_join a b =
     (if startswith b ''/'' then b
      else if a = [] \<or> endswith a ''/'' then a @ b
      else a @ ''/'' @ b)"

definition os_path_isabs :: "string \<Rightarrow> bool" where
  "os_path_isabs p = startswith p ''/''"

definition normpath_step :: "nat \<Rightarrow> string list \<Rightarrow> string \<Rightarrow> string list" where
  "normpath_step initial_slashes new_comps component =
     (if component = [] \<or> component = ''.'' then new_comps
      else if component \<noteq> ''..'' \<or> (initial_slashes = 0 \<and> new_comps = [])
                \<or> (new_comps \<noteq> [] \<and> last new_comps = ''..'')
           then new_comps @ [component]
      else if new_comps \<noteq> [] then butlast new_comps
      else new_comps)"

definition os_path_normpath :: "string \<Rightarrow> string" where
  "os_path_normpath p =
     (if p = [] then ''.''
      else
        let initial_slashes =
              (if startswith p ''/''
               then (if startswith p ''//'' \<and> \<not> startswith p ''///'' then 2 else 1)
               else (0::nat));
            comps = foldl (normpath_step initial_slashes) [] (split_on (CHR ''/'') p);
            joined = replicate initial_slashes (CHR ''/'') @ str_join ''/'' comps
        in if joined = [] then ''.'' else joined)"

definition os_path_abspath :: "string \<Rightarrow> string \<Rightarrow> string" where
  "os_path_abspath cwd p =
     os_path_normpath (if os_path_isabs p then p else os_path_join cwd p)"

fun commonprefix :: "string list \<Rightarrow> string list \<Rightarrow> string list" where
  "commonprefix (x # xs) (y # ys) = (if x = y then x # commonprefix xs ys else [])"
| "commonprefix xs ys = []"

definition os_path_relpath :: "string \<Rightarrow> string \<Rightarrow> string \<Rightarrow> py_exception + string" where
  "os_path_relpath cwd p start =
     (if p = [] then Inl ValueError
      else
        let start_list = filter (\<lambda>x. x \<noteq> []) (split_on (CHR ''/'') (os_path_abspath cwd start));
            path_list = filter (\<lambda>x. x \<noteq> []) (split_on (CHR ''/'') (os_path_abspath cwd p));
            i = length (commonprefix start_list path_list);
            rel_list = replicate (length start_list - i) ''..'' @ drop i path_list
        in if rel_list = [] then Inr ''.'' else Inr (str_join ''/'' rel_list))"

text \<open>
  What the file system holds at a path: a file, or a directory with its entries in the
  order the system lists them. Symbolic links are not modelled.
\<close>

datatype fs_entry = File | Dir "(string \<times> fs_entry) list"

fun is_dir :: "fs_entry \<Rightarrow> bool" where
  "is_dir File = False"
| "is_dir (Dir entries) = True"

text \<open>
  \<^verbatim>\<open>os.walk(top)\<close>, top-down: the directory itself with the names of its
  subdirectories and of its other entries, then each subdirectory in turn. A
  \<^verbatim>\<open>top\<close> that is not a directory yields nothing.
\<close>

fun os_walk :: "string \<Rightarrow> fs_entry \<Rightarrow> (string \<times> string list \<times> string list) list" where
  "os_walk topdir File = []"
| "os_walk topdir (Dir entries) =
     (topdir, map fst (filter (\<lambda>ne. is_dir (snd ne)) entries),
           map fst (filter (\<lambda>ne. \<not> is_dir (snd ne)) entries))
     # concat (map (\<lambda>ne. if is_dir (snd ne) then os_walk (os_path_join topdir (fst ne)) (snd ne)
                          else [])
                 entries)"

subsection \<open>The tree builder\<close>

text \<open>
  A node object is named by the place where it lives: the tree it is in (0 for the
  tree of the root node, \<open>k + 1\<close> for the \<open>k\<close>-th node created without a parent) and the
  child indices that lead to it. Children are only ever appended, so a place never
  changes. \<^verbatim>\<open>path_to_node\<close> is a dictionary in insertion order.
\<close>

datatype node_ref = Ref nat "nat list"

record crawl_state =
  root :: NextjsNode
  detached :: "NextjsNode list"
  path_to_node :: "(string \<times> node_ref) list"

fun dict_set :: "'k \<Rightarrow> 'v \<Rightarrow> ('k \<times> 'v) list \<Rightarrow> ('k \<times> 'v) list" where
  "dict_set k v [] = [(k, v)]"
| "dict_set k v ((k', v') # kvs) =
     (if k = k' then (k, v) # kvs else (k', v') # dict_set k v kvs)"

definition dict_get :: "('k \<times> 'v) list \<Rightarrow> 'k \<Rightarrow> 'v option" where
  "dict_get d k = map_of d k"

text \<open>\<^verbatim>\<open>add_child\<close> on the node at the end of a chain of child indices.\<close>

fun add_child_at :: "nat list \<Rightarrow> NextjsNode \<Rightarrow> NextjsNode \<Rightarrow> NextjsNode" where
  "add_child_at [] child (Node nm p ty cs hc) = Node nm p ty (cs @ [child]) hc"
| "add_child_at (i # is) child (Node nm p ty cs hc) =
     (if i < length cs
      then Node nm p ty (cs[i := add_child_at is child (cs ! i)]) hc
      else Node nm p ty cs hc)"

fun node_at :: "nat list \<Rightarrow> NextjsNode \<Rightarrow> NextjsNode option" where
  "node_at [] n = Some n"
| "node_at (i # is) n =
     (if i < length (children n) then node_at is (children n ! i) else None)"

definition tree_of :: "crawl_state \<Rightarrow> nat \<Rightarrow> NextjsNode option" where
  "tree_of st t =
     (if t = 0 then Some (root st)
      else if t - 1 < length (detached st) then Some (detached st ! (t - 1))
      else None)"

definition set_tree :: "crawl_state \<Rightarrow> nat \<Rightarrow> NextjsNode \<Rightarrow> crawl_state" where
  "set_tree st t n =
     (if t = 0 then st\<lparr>root := n\<rparr>
      else st\<lparr>detached := (detached st)[t - 1 := n]\<rparr>)"

text \<open>
  \<^verbatim>\<open>parent.add_child(child)\<close> for a newly created \<^verbatim>\<open>child\<close>: the child is appended
  to the parent's list, and its place is returned. The places kept in
  \<^verbatim>\<open>path_to_node\<close> are places of nodes that exist; for any other place the state is
  left as it is.
\<close>

definition add_child :: "node_ref \<Rightarrow> NextjsNode \<Rightarrow> crawl_state \<Rightarrow> node_ref \<times> crawl_state" where
  "add_child parent child st =
     (case parent of Ref t is \<Rightarrow>
        (case tree_of st t of
           None \<Rightarrow> (Ref t is, st)
         | Some tree \<Rightarrow>
             (case node_at is tree of
                None \<Rightarrow> (Ref t is, st)
              | Some p \<Rightarrow>
                  (Ref t (is @ [length (children p)]),
                   set_tree st t (add_child_at is child tree)))))"

text \<open>A newly created node that is attached to no parent.\<close>

definition keep_detached :: "NextjsNode \<Rightarrow> crawl_state \<Rightarrow> node_ref \<times> crawl_state" where
  "keep_detached n st =
     (Ref (Suc (length (detached st))) [], st\<lparr>detached := detached st @ [n]\<rparr>)"

definition register :: "string \<Rightarrow> node_ref \<Rightarrow> crawl_state \<Rightarrow> crawl_state" where
  "register p r st = st\<lparr>path_to_node := dict_set p r (path_to_node st)\<rparr>"

definition dir_node_type :: "string \<Rightarrow> node_type" where
  "dir_node_type dirname = (if is_dynamic_route dirname then Dynamic else Folder)"

text \<open>The loop over \<^verbatim>\<open>dirnames\<close>.\<close>

fun crawl_dirnames :: "string \<Rightarrow> node_ref \<Rightarrow> string list \<Rightarrow> crawl_state \<Rightarrow> crawl_state" where
  "crawl_dirnames rel_path current_node [] st = st"
| "crawl_dirnames rel_path current_node (dirname # rest) st =
     (let child_path = os_path_join rel_path dirname;
          node_type = dir_node_type dirname;
          (child_node, st1) =
             add_child current_node (NextjsNode_init dirname child_path node_type) st;
          st2 = register child_path child_node st1
      in crawl_dirnames rel_path current_node rest st2)"

text \<open>The loop over \<^verbatim>\<open>filenames\<close>.\<close>

fun crawl_filenames :: "string \<Rightarrow> node_ref \<Rightarrow> string list \<Rightarrow> crawl_state \<Rightarrow> crawl_state" where
  "crawl_filenames rel_path current_node [] st = st"
| "crawl_filenames rel_path current_node (filename # rest) st =
     (if is_page_file filename \<or> is_layout_file filename
      then
        let child_path = os_path_join rel_path filename;
            node_type = (if is_page_file filename then Page else Layout);
            (child_node, st1) =
               add_child current_node (NextjsNode_init filename child_path node_type) st;
            st2 = register child_path child_node st1
        in crawl_filenames rel_path current_node rest st2
      else crawl_filenames rel_path current_node rest st)"

text \<open>The body of the loop over \<^verbatim>\<open>os.walk(root_path)\<close>, for one directory.\<close>

definition crawl_directory ::
  "string \<Rightarrow> string \<Rightarrow> string \<Rightarrow> string \<times> string list \<times> string list
     \<Rightarrow> crawl_state \<Rightarrow> py_exception + crawl_state" where
  "crawl_directory cwd root_path root_name triple st =
     (case triple of (dirpath, dirnames, filenames) \<Rightarrow>
        (case os_path_relpath cwd dirpath (os_path_dirname root_path) of
           Inl e \<Rightarrow> Inl e
         | Inr rp \<Rightarrow>
             let rel_path = (if rp = ''.'' then root_name else rp);
                 (current_node, st1) =
                   (case dict_get (path_to_node st) rel_path of
                      Some r \<Rightarrow> (r, st)
                    | None \<Rightarrow>
                        let parent_path = os_path_dirname rel_path;
                            dir_name = os_path_basename rel_path;
                            node_type = dir_node_type dir_name;
                            fresh = NextjsNode_init dir_name rel_path node_type;
                            (r, sta) =
                              (case dict_get (path_to_node st) parent_path of
                                 Some parent \<Rightarrow> add_child parent fresh st
                               | None \<Rightarrow> keep_detached fresh st)
                        in (r, register rel_path r sta));
                 st2 = crawl_dirnames rel_path current_node dirnames st1;
                 st3 = crawl_filenames rel_path current_node filenames st2
             in Inr st3))"

fun crawl_walk ::
  "string \<Rightarrow> string \<Rightarrow> string \<Rightarrow> (string \<times> string list \<times> string list) list
     \<Rightarrow> crawl_state \<Rightarrow> py_exception + crawl_state" where
  "crawl_walk cwd root_path root_name [] st = Inr st"
| "crawl_walk cwd root_path root_name (triple # rest) st =
     (case crawl_directory cwd root_path root_name triple st of
        Inl e \<Rightarrow> Inl e
      | Inr st' \<Rightarrow> crawl_walk cwd root_path root_name rest st')"

text \<open>
  The environment of a run: the current directory, what the file system holds at a
  path (\<^term>\<open>None\<close> when the path does not exist), and whether a file can be opened
  for writing.
\<close>

record env =
  cwd :: string
  lookup :: "string \<Rightarrow> fs_entry option"
  can_write :: "string \<Rightarrow> bool"

text \<open>
  \<^verbatim>\<open>crawl_nextjs_project\<close> up to the end of the walk: the final root node together
  with \<^verbatim>\<open>path_to_node\<close>. A missing \<^verbatim>\<open>root_path\<close> ends in \<^verbatim>\<open>sys.exit(1)\<close>.
\<close>

definition crawl_final_state :: "env \<Rightarrow> string \<Rightarrow> py_exception + crawl_state" where
  "crawl_final_state e root_path =
     (case lookup e root_path of
        None \<Rightarrow> Inl (SystemExit 1)
      | Some entry \<Rightarrow>
          let root_name = os_path_basename root_path;
              root_node = NextjsNode_init root_name root_name Folder;
              st = \<lparr>root = root_node, detached = [], path_to_node = [(root_name, Ref 0 [])]\<rparr>
          in crawl_walk (cwd e) root_path root_name (os_walk root_path entry) st)"

definition crawl_nextjs_project :: "env \<Rightarrow> string \<Rightarrow> py_exception + NextjsNode" where
  "crawl_nextjs_project e root_path =
     (case crawl_final_state e root_path of
        Inl ex \<Rightarrow> Inl ex
      | Inr st \<Rightarrow> Inr (root st))"

subsection \<open>The command line\<close>

text \<open>
  What a run leaves behind: the file written, if any, with its content, and the exit
  status. Messages printed to the terminal are not modelled.
\<close>

record outcome =
  written :: "(string \<times> string) option"
  exit_code :: nat

text \<open>
  \<^verbatim>\<open>save_to_file\<close>: the file is written whole, or \<^verbatim>\<open>open\<close> raises and nothing is
  written.
\<close>

definition save_to_file :: "env \<Rightarrow> string \<Rightarrow> string \<Rightarrow> py_exception + (string \<times> string)" where
  "save_to_file e content filename =
     (if can_write e filename then Inr (filename, content) else Inl OSError)"

text \<open>
  \<^verbatim>\<open>main\<close>: \<^verbatim>\<open>SystemExit\<close> is not an \<^verbatim>\<open>Exception\<close> and leaves with its own status;
  any other exception is caught and turned into \<^verbatim>\<open>sys.exit(1)\<close>.
\<close>

definition main :: "env \<Rightarrow> string list \<Rightarrow> outcome" where
  "main e argv =
     (if length argv < 2 then \<lparr>written = None, exit_code = 1\<rparr>
      else
        let root_path = argv ! 1;
            output_file = (if length argv > 2 then argv ! 2
                           else ''nextjs_project_structure.mmd'')
        in case crawl_nextjs_project e root_path of
             Inl (SystemExit n) \<Rightarrow> \<lparr>written = None, exit_code = n\<rparr>
           | Inl _ \<Rightarrow> \<lparr>written = None, exit_code = 1\<rparr>
           | Inr root_node \<Rightarrow>
               let pruned_root = prune_tree root_node;
                   mermaid_diagram = generate_mermaid pruned_root
               in case save_to_file e mermaid_diagram output_file of
                    Inl (SystemExit n) \<Rightarrow> \<lparr>written = None, exit_code = n\<rparr>
                  | Inl _ \<Rightarrow> \<lparr>written = None, exit_code = 1\<rparr>
                  | Inr f \<Rightarrow> \<lparr>written = Some f, exit_code = 0\<rparr>)"

subsection \<open>Notions used to state the properties\<close>

text \<open>The character just before the last dot of a name.\<close>

definition before_last_dot :: "string \<Rightarrow> char option" where
  "before_last_dot s =
     (case dropWhile (\<lambda>c. c \<noteq> CHR ''.'') (rev s) of
        d # c # rest \<Rightarrow> Some c
      | _ \<Rightarrow> None)"

text \<open>The words a name can end with when \<^term>\<open>re_search_basename\<close> finds a match.\<close>

definition dollar_words :: "string \<Rightarrow> string list" where
  "dollar_words lit =
     concat (map (\<lambda>ext. [lit @ ''.'' @ ext, (lit @ ''.'' @ ext) @ [newline]]) source_exts)"

text \<open>
  A bracket pair of a name \<open>s\<close>: an opening bracket after \<open>pre\<close>, a non-empty text
  \<open>g\<close> without newline, a closing bracket, and the rest \<open>post\<close>.
\<close>

definition bracket_pair_at :: "string \<Rightarrow> string \<Rightarrow> string \<Rightarrow> string \<Rightarrow> bool" where
  "bracket_pair_at s pre g post =
     (s = pre @ CHR ''['' # g @ CHR '']'' # post \<and> g \<noteq> [] \<and> newline \<notin> set g)"

text \<open>The nodes strictly below a node, parents before children, left to right.\<close>

fun descendants :: "NextjsNode \<Rightarrow> NextjsNode list"
  and descendants_list :: "NextjsNode list \<Rightarrow> NextjsNode list" where
  "descendants (Node nm p ty cs hc) = descendants_list cs"
| "descendants_list [] = []"
| "descendants_list (child # rest) = child # descendants child @ descendants_list rest"

definition contains_component :: "NextjsNode \<Rightarrow> bool" where
  "contains_component n = (has_component n \<or> (\<exists>d \<in> set (descendants n). has_component d))"

text \<open>
  Letters and digits (the word characters other than the underscore); and what
  identifier generation makes of one character.
\<close>

definition is_alnum_char :: "char \<Rightarrow> bool" where
  "is_alnum_char c = (is_word_char c \<and> c \<noteq> CHR ''_'')"

definition clean_char :: "char \<Rightarrow> char" where
  "clean_char c = (if is_word_char c then c else CHR ''_'')"

text \<open>
  The nodes of a run of the emitter's loop that passed the \<^verbatim>\<open>visited\<close> check, and
  the lines they add to the three lists.
\<close>

definition passed :: "NextjsNode list \<Rightarrow> string set \<Rightarrow> NextjsNode list" where
  "passed queue visited = map fst (filter snd (bfs_trace queue visited))"

definition emit_all :: "NextjsNode list \<Rightarrow> emitter \<Rightarrow> emitter" where
  "emit_all ns acc =
     acc\<lparr>mermaid_lines := mermaid_lines acc @ map decl_line ns,
         edges := edges acc @ concat (map (\<lambda>n. map (edge_line n) (children n)) ns),
         styles := styles acc @ map style_line (filter (\<lambda>n. get_mermaid_style n \<noteq> []) ns)\<rparr>"

text \<open>The parent-child links of a tree, and its nodes that are not folders.\<close>

definition tree_links :: "NextjsNode \<Rightarrow> (NextjsNode \<times> NextjsNode) list" where
  "tree_links root_node =
     concat (map (\<lambda>n. map (Pair n) (children n)) (root_node # descendants root_node))"

definition non_folder_nodes :: "NextjsNode \<Rightarrow> NextjsNode list" where
  "non_folder_nodes root_node =
     filter (\<lambda>n. node_type n \<noteq> Folder) (root_node # descendants root_node)"

text \<open>The directories of a file-system tree, and its page and layout files.\<close>

fun count_directories :: "fs_entry \<Rightarrow> nat" where
  "count_directories File = 0"
| "count_directories (Dir entries) =
     Suc (sum_list (map (\<lambda>ne. count_directories (snd ne)) entries))"

fun count_qualifying_files :: "fs_entry \<Rightarrow> nat" where
  "count_qualifying_files File = 0"
| "count_qualifying_files (Dir entries) =
     length (filter (\<lambda>ne. \<not> is_dir (snd ne) \<and> (is_page_file (fst ne) \<or> is_layout_file (fst ne)))
               entries)
     + sum_list (map (\<lambda>ne. count_qualifying_files (snd ne)) entries)"

text \<open>An environment whose file system holds one tree, at \<open>root_path\<close>.\<close>

definition single_root_env :: "string \<Rightarrow> string \<Rightarrow> fs_entry \<Rightarrow> env" where
  "single_root_env dir root_path entry =
     \<lparr>cwd = dir,
      lookup = (\<lambda>p. if p = root_path then Some entry else None),
      can_write = (\<lambda>f. True)\<rparr>"

subsection \<open>Example inputs\<close>

text \<open>A project with one route: \<^verbatim>\<open>about/page.tsx\<close>.\<close>

definition about_fs :: fs_entry where
  "about_fs = Dir [(''about'', Dir [(''page.tsx'', File)])]"

text \<open>A project with two sibling directories \<^verbatim>\<open>x-y\<close> and \<^verbatim>\<open>x_y\<close>.\<close>

definition twin_fs :: fs_entry where
  "twin_fs = Dir [(''x-y'', Dir [(''page.tsx'', File)]),
                  (''x_y'', Dir [(''layout.tsx'', File)])]"

definition twin_first :: NextjsNode where
  "twin_first = Node ''x-y'' ''app/x-y'' Folder
                  [Node ''page.tsx'' ''app/x-y/page.tsx'' Page [] True] False"

definition twin_layout :: NextjsNode where
  "twin_layout = Node ''layout.tsx'' ''app/x_y/layout.tsx'' Layout [] True"

definition twin_second :: NextjsNode where
  "twin_second = Node ''x_y'' ''app/x_y'' Folder [twin_layout] False"

definition twin_tree :: NextjsNode where
  "twin_tree = Node ''app'' ''app'' Folder [twin_first, twin_second] False"

text \<open>A tree with a page three levels down beside an empty directory.\<close>

definition deep_tree :: NextjsNode where
  "deep_tree =
     Node ''app'' ''app'' Folder
       [Node ''unused'' ''app/unused'' Folder [] False,
        Node ''blog'' ''app/blog'' Folder
          [Node ''[slug]'' ''app/blog/[slug]'' Dynamic
             [Node ''page.tsx'' ''app/blog/[slug]/page.tsx'' Page [] True] False] False]
       False"

section \<open>Properties of the classifier\<close>

lemma endswith_iff: "endswith s w \<longleftrightarrow> (\<exists>pre. s = pre @ w)"
proof
  assume "endswith s w"
  then have "s = take (length s - length w) s @ w"
    unfolding endswith_def by (metis append_take_drop_id)
  then show "\<exists>pre. s = pre @ w" ..
next
  assume "\<exists>pre. s = pre @ w"
  then show "endswith s w" unfolding endswith_def by auto
qed

lemma before_last_dot_suffix:
  assumes "endswith s w" and "before_last_dot w = Some c"
  shows "before_last_dot s = Some c"
proof -
  from assms(1) obtain pre where s: "s = pre @ w" unfolding endswith_iff ..
  from assms(2) obtain d rest where dw: "dropWhile (\<lambda>c. c \<noteq> CHR ''.'') (rev w) = d # c # rest"
    unfolding before_last_dot_def by (auto split: list.splits)
  then have "dropWhile (\<lambda>c. c \<noteq> CHR ''.'') (rev w) \<noteq> []" by simp
  then have "\<exists>x\<in>set (rev w). \<not> x \<noteq> CHR ''.''"
    unfolding dropWhile_eq_Nil_conv by blast
  then have "dropWhile (\<lambda>c. c \<noteq> CHR ''.'') (rev w @ rev pre)
             = dropWhile (\<lambda>c. c \<noteq> CHR ''.'') (rev w) @ rev pre"
    by (intro dropWhile_append1) auto
  with dw s show ?thesis unfolding before_last_dot_def by simp
qed

lemma re_search_basename_words:
  "re_search_basename lit f \<Longrightarrow> \<exists>w \<in> set (dollar_words lit). endswith f w"
  unfolding re_search_basename_def list_ex_iff at_dollar_def dollar_words_def
  by fastforce

lemma page_words: "list_all (\<lambda>w. before_last_dot w = Some CHR ''e'') (dollar_words ''page'')"
  by code_simp

lemma layout_words: "list_all (\<lambda>w. before_last_dot w = Some CHR ''t'') (dollar_words ''layout'')"
  by code_simp

text \<open>
  Claim C7. No file name is both a page file and a layout file: a name that
  \<^term>\<open>is_page_file\<close> accepts has the letter \<open>e\<close> before its last dot, one that
  \<^term>\<open>is_layout_file\<close> accepts has the letter \<open>t\<close> there.
\<close>

theorem page_layout_exclusive: "\<not> (is_page_file filename \<and> is_layout_file filename)"
proof
  assume a: "is_page_file filename \<and> is_layout_file filename"
  then have "re_search_basename ''page'' filename" and "re_search_basename ''layout'' filename"
    unfolding is_page_file_def is_layout_file_def PAGE_PATTERNS_def LAYOUT_PATTERNS_def
    by simp_all
  then obtain w1 w2 where "w1 \<in> set (dollar_words ''page'')" "endswith filename w1"
      "w2 \<in> set (dollar_words ''layout'')" "endswith filename w2"
    using re_search_basename_words by blast
  then have "before_last_dot filename = Some CHR ''e''" "before_last_dot filename = Some CHR ''t''"
    using page_words layout_words before_last_dot_suffix
    unfolding list_all_iff by blast+
  then show False by simp
qed

subsection \<open>The bracket pattern\<close>

lemma lazy_upto_close_Some:
  "lazy_upto_close acc cs = Some g \<Longrightarrow>
   \<exists>mid post. cs = mid @ CHR '']'' # post \<and> CHR '']'' \<notin> set mid \<and> newline \<notin> set mid \<and> g = acc @ mid"
proof (induction acc cs rule: lazy_upto_close.induct)
  case (1 acc)
  then show ?case by simp
next
  case (2 acc c cs)
  show ?case
  proof (cases "c = CHR '']''")
    case True
    with 2 have "g = acc" by simp
    with True have "c # cs = [] @ CHR '']'' # cs \<and> CHR '']'' \<notin> set [] \<and>
        newline \<notin> set [] \<and> g = acc @ []" by simp
    then show ?thesis by blast
  next
    case False
    with 2 have nl: "c \<noteq> newline" and r: "lazy_upto_close (acc @ [c]) cs = Some g"
      by (auto split: if_splits)
    from 2(1) [OF False nl r] obtain mid post where
      "cs = mid @ CHR '']'' # post" "CHR '']'' \<notin> set mid" "newline \<notin> set mid" "g = (acc @ [c]) @ mid"
      by blast
    with False nl have "c # cs = (c # mid) @ CHR '']'' # post \<and> CHR '']'' \<notin> set (c # mid) \<and>
        newline \<notin> set (c # mid) \<and> g = acc @ (c # mid)" by simp
    then show ?thesis by blast
  qed
qed

lemma lazy_upto_close_complete:
  "newline \<notin> set mid \<Longrightarrow> lazy_upto_close acc (mid @ CHR '']'' # post) \<noteq> None"
  by (induction mid arbitrary: acc) auto

lemma match_group_here_Some:
  assumes "match_group_here cs = Some g"
  shows "\<exists>post. cs = g @ CHR '']'' # post \<and> g \<noteq> [] \<and> newline \<notin> set g \<and> CHR '']'' \<notin> set (tl g)"
proof (cases cs)
  case Nil
  with assms show ?thesis by simp
next
  case (Cons c cs')
  with assms have nl: "c \<noteq> newline" and r: "lazy_upto_close [c] cs' = Some g"
    by (auto split: if_splits)
  from lazy_upto_close_Some [OF r] obtain mid post where
    "cs' = mid @ CHR '']'' # post" "CHR '']'' \<notin> set mid" "newline \<notin> set mid" "g = [c] @ mid"
    by blast
  with Cons nl show ?thesis by (intro exI [of _ post]) simp
qed

lemma match_group_here_complete:
  assumes "g \<noteq> []" and "newline \<notin> set g"
  shows "match_group_here (g @ CHR '']'' # post) \<noteq> None"
proof (cases g)
  case Nil
  with assms show ?thesis by simp
next
  case (Cons c g')
  with assms have "c \<noteq> newline" "newline \<notin> set g'" by auto
  with Cons show ?thesis by (simp add: lazy_upto_close_complete)
qed

lemma DYNAMIC_ROUTE_PATTERN_Some:
  "DYNAMIC_ROUTE_PATTERN s = Some g \<Longrightarrow>
   \<exists>pre post. bracket_pair_at s pre g post \<and> CHR '']'' \<notin> set (tl g) \<and>
     (\<forall>pre' g' post'. bracket_pair_at s pre' g' post' \<longrightarrow> length pre \<le> length pre')"
proof (induction s)
  case Nil
  then show ?case by simp
next
  case (Cons c cs)
  show ?case
  proof (cases "c = CHR ''['' \<and> match_group_here cs \<noteq> None")
    case True
    with Cons.prems have m: "match_group_here cs = Some g" by auto
    from match_group_here_Some [OF m] obtain post where
      p: "cs = g @ CHR '']'' # post" "g \<noteq> []" "newline \<notin> set g" and lz: "CHR '']'' \<notin> set (tl g)"
      by blast
    with True have "bracket_pair_at (c # cs) [] g post"
      by (simp add: bracket_pair_at_def)
    moreover have "length ([] :: string) \<le> length pre'" for pre' :: string by simp
    ultimately show ?thesis using lz by blast
  next
    case False
    with Cons.prems have r: "DYNAMIC_ROUTE_PATTERN cs = Some g"
      by (auto split: if_splits option.splits)
    from Cons.IH [OF r] obtain pre post where
      bp: "bracket_pair_at cs pre g post" and lz: "CHR '']'' \<notin> set (tl g)" and
      lm: "\<forall>pre' g' post'. bracket_pair_at cs pre' g' post' \<longrightarrow> length pre \<le> length pre'"
      by blast
    have "length (c # pre) \<le> length pre'" if b: "bracket_pair_at (c # cs) pre' g' post'"
      for pre' g' post'
    proof (cases pre')
      case Nil
      with b have "c = CHR ''[''" "cs = g' @ CHR '']'' # post'" "g' \<noteq> []" "newline \<notin> set g'"
        by (simp_all add: bracket_pair_at_def)
      with match_group_here_complete [of g' post'] False show ?thesis by simp
    next
      case (Cons d pre'')
      with b have "bracket_pair_at cs pre'' g' post'" by (simp add: bracket_pair_at_def)
      with lm have "length pre \<le> length pre''" by blast
      with Cons show ?thesis by simp
    qed
    moreover from bp have "bracket_pair_at (c # cs) (c # pre) g post"
      by (simp add: bracket_pair_at_def)
    ultimately show ?thesis using lz by blast
  qed
qed

lemma DYNAMIC_ROUTE_PATTERN_complete:
  "bracket_pair_at s pre g post \<Longrightarrow> DYNAMIC_ROUTE_PATTERN s \<noteq> None"
proof (induction pre arbitrary: s)
  case Nil
  then have "s = CHR ''['' # g @ CHR '']'' # post" "g \<noteq> []" "newline \<notin> set g"
    by (simp_all add: bracket_pair_at_def)
  with match_group_here_complete [of g post] show ?case by auto
next
  case (Cons c pre)
  then obtain cs where s: "s = c # cs" and "bracket_pair_at cs pre g post"
    by (auto simp: bracket_pair_at_def)
  with Cons.IH have "DYNAMIC_ROUTE_PATTERN cs \<noteq> None" by blast
  with s show ?case by (auto split: option.splits)
qed

lemma is_dynamic_route_iff:
  "is_dynamic_route s \<longleftrightarrow> (\<exists>pre g post. bracket_pair_at s pre g post)"
proof
  assume "is_dynamic_route s"
  then obtain g where "DYNAMIC_ROUTE_PATTERN s = Some g"
    unfolding is_dynamic_route_def by auto
  from DYNAMIC_ROUTE_PATTERN_Some [OF this] show "\<exists>pre g post. bracket_pair_at s pre g post"
    by blast
next
  assume "\<exists>pre g post. bracket_pair_at s pre g post"
  then show "is_dynamic_route s"
    unfolding is_dynamic_route_def using DYNAMIC_ROUTE_PATTERN_complete by blast
qed

lemma lone_empty_pair_no_bracket_pair:
  assumes "CHR ''['' \<notin> set pre" and "CHR '']'' \<notin> set post"
  shows "\<not> bracket_pair_at (pre @ ''[]'' @ post) p g q"
proof
  assume "bracket_pair_at (pre @ ''[]'' @ post) p g q"
  then have eq: "pre @ CHR ''['' # CHR '']'' # post = p @ CHR ''['' # g @ CHR '']'' # q"
    and g: "g \<noteq> []"
    by (simp_all add: bracket_pair_at_def)
  from g obtain a g' where ga: "g = a # g'" by (cases g) auto
  from eq obtain us where
    "(pre = p @ us \<and> us @ CHR ''['' # CHR '']'' # post = CHR ''['' # g @ CHR '']'' # q)
     \<or> (pre @ us = p \<and> CHR ''['' # CHR '']'' # post = us @ CHR ''['' # g @ CHR '']'' # q)"
    unfolding append_eq_append_conv2 by blast
  then show False
  proof
    assume c1: "pre = p @ us \<and> us @ CHR ''['' # CHR '']'' # post = CHR ''['' # g @ CHR '']'' # q"
    show False
    proof (cases us)
      case Nil
      with c1 ga have "post = g' @ CHR '']'' # q" by simp
      with assms(2) show False by simp
    next
      case (Cons u us')
      with c1 have "u = CHR ''[''" "pre = p @ u # us'" by simp_all
      with assms(1) show False by simp
    qed
  next
    assume c2: "pre @ us = p \<and> CHR ''['' # CHR '']'' # post = us @ CHR ''['' # g @ CHR '']'' # q"
    show False
    proof (cases us)
      case Nil
      with c2 ga have "post = g' @ CHR '']'' # q" by simp
      with assms(2) show False by simp
    next
      case (Cons u us')
      with c2 have t: "CHR '']'' # post = us' @ CHR ''['' # g @ CHR '']'' # q" by simp
      show False
      proof (cases us')
        case Nil
        with t show False by simp
      next
        case (Cons v us'')
        with t have "post = us'' @ CHR ''['' # g @ CHR '']'' # q" by simp
        with assms(2) show False by simp
      qed
    qed
  qed
qed

text \<open>
  Claim C10. A directory name whose only bracket pair is empty, such as \<open>[]\<close>, is not
  a dynamic route and is classified as a folder; whenever \<^term>\<open>is_dynamic_route\<close>
  holds, the name has an opening bracket, at least one character, and a closing
  bracket.
\<close>

theorem empty_bracket_pair_is_folder:
  "(CHR ''['' \<notin> set pre \<and> CHR '']'' \<notin> set post \<longrightarrow>
      \<not> is_dynamic_route (pre @ ''[]'' @ post) \<and> dir_node_type (pre @ ''[]'' @ post) = Folder)
   \<and> (\<forall>s. is_dynamic_route s \<longrightarrow>
         (\<exists>before inner after. s = before @ ''['' @ inner @ '']'' @ after \<and> inner \<noteq> []))"
proof -
  have a: "\<not> is_dynamic_route (pre @ ''[]'' @ post)"
    if "CHR ''['' \<notin> set pre" and "CHR '']'' \<notin> set post"
    unfolding is_dynamic_route_iff using lone_empty_pair_no_bracket_pair [OF that] by blast
  have b: "\<exists>before inner after. s = before @ ''['' @ inner @ '']'' @ after \<and> inner \<noteq> []"
    if "is_dynamic_route s" for s
  proof -
    from that obtain p g q where "bracket_pair_at s p g q"
      unfolding is_dynamic_route_iff by blast
    then have "s = p @ ''['' @ g @ '']'' @ q \<and> g \<noteq> []"
      by (simp add: bracket_pair_at_def)
    then show ?thesis by blast
  qed
  from a b show ?thesis by (simp add: dir_node_type_def)
qed

text \<open>The name \<open>[]\<close> itself.\<close>

theorem empty_bracket_pair_is_folder_witness:
  "CHR ''['' \<notin> set '''' \<and> CHR '']'' \<notin> set ''''
   \<and> \<not> is_dynamic_route ''[]'' \<and> dir_node_type ''[]'' = Folder"
  using empty_bracket_pair_is_folder [of "''''" "''''"] by simp

text \<open>
  Claim C8. For a node of type dynamic, \<^term>\<open>get_mermaid_label\<close> always returns a
  label (the function has no failing branch). When the name holds a bracket pair,
  the label is the text of the leftmost pair, cut at its first closing bracket,
  between brackets; when it holds none, the label is the name itself.
\<close>

theorem dynamic_label_total:
  assumes "node_type n = Dynamic"
  shows "((\<exists>pre g post. bracket_pair_at (name n) pre g post) \<longrightarrow>
            (\<exists>pre g post. bracket_pair_at (name n) pre g post
               \<and> CHR '']'' \<notin> set (tl g)
               \<and> (\<forall>pre' g' post'. bracket_pair_at (name n) pre' g' post'
                     \<longrightarrow> length pre \<le> length pre')
               \<and> get_mermaid_label n = ''['' @ g @ '']''))
         \<and> ((\<nexists>pre g post. bracket_pair_at (name n) pre g post) \<longrightarrow>
              get_mermaid_label n = name n)"
proof (cases "DYNAMIC_ROUTE_PATTERN (name n)")
  case None
  then have "\<nexists>pre g post. bracket_pair_at (name n) pre g post"
    using DYNAMIC_ROUTE_PATTERN_complete by blast
  moreover from None assms have "get_mermaid_label n = name n"
    by (simp add: get_mermaid_label_def)
  ultimately show ?thesis by blast
next
  case (Some g)
  with assms have l: "get_mermaid_label n = ''['' @ g @ '']''"
    by (simp add: get_mermaid_label_def)
  from DYNAMIC_ROUTE_PATTERN_Some [OF Some] obtain pre post where
    "bracket_pair_at (name n) pre g post" "CHR '']'' \<notin> set (tl g)"
    "\<forall>pre' g' post'. bracket_pair_at (name n) pre' g' post' \<longrightarrow> length pre \<le> length pre'"
    by blast
  with l show ?thesis by blast
qed

text \<open>The directory \<open>[slug]\<close> is labelled \<open>[slug]\<close>; a dynamic node named \<open>plain\<close> keeps its name.\<close>

theorem dynamic_label_total_witness:
  "node_type (NextjsNode_init ''[slug]'' ''app/[slug]'' Dynamic) = Dynamic
   \<and> bracket_pair_at ''[slug]'' [] ''slug'' []
   \<and> get_mermaid_label (NextjsNode_init ''[slug]'' ''app/[slug]'' Dynamic) = ''[slug]''
   \<and> node_type (NextjsNode_init ''plain'' ''app/plain'' Dynamic) = Dynamic
   \<and> get_mermaid_label (NextjsNode_init ''plain'' ''app/plain'' Dynamic) = ''plain''"
proof -
  let ?a = "NextjsNode_init ''[slug]'' ''app/[slug]'' Dynamic"
  let ?b = "NextjsNode_init ''plain'' ''app/plain'' Dynamic"
  have ta: "node_type ?a = Dynamic" and tb: "node_type ?b = Dynamic"
    by (simp_all add: NextjsNode_init_def)
  have bp: "bracket_pair_at ''[slug]'' [] ''slug'' []"
    by (simp add: bracket_pair_at_def newline_def)
  have nb: "\<nexists>pre g post. bracket_pair_at (name ?b) pre g post"
  proof -
    have "\<not> is_dynamic_route ''plain''" by (simp add: is_dynamic_route_def)
    then show ?thesis
      unfolding is_dynamic_route_iff by (simp add: NextjsNode_init_def)
  qed
  have la: "get_mermaid_label ?a = ''[slug]''"
    by (simp add: get_mermaid_label_def NextjsNode_init_def newline_def)
  from dynamic_label_total [OF tb] nb have lb: "get_mermaid_label ?b = ''plain''"
    by (simp add: NextjsNode_init_def)
  from ta tb bp la lb show ?thesis by blast
qed

section \<open>Properties of identifier generation\<close>

lemma is_word_char_separators:
  "is_word_char CHR ''_''" "\<not> is_word_char CHR ''/''" "\<not> is_word_char CHR ''.''"
  "\<not> is_word_char CHR ''-''"
  by (simp_all add: is_word_char_def)

text \<open>The three replacements are absorbed by the last substitution.\<close>

lemma get_mermaid_id_map: "get_mermaid_id n = map clean_char (path n)"
proof -
  have "re_sub_nonword (str_replace old (CHR ''_'') s) = re_sub_nonword s"
    if "\<not> is_word_char old" for old s
    using that by (induction s) (auto simp: re_sub_nonword_def str_replace_def)
  then have "get_mermaid_id n = re_sub_nonword (path n)"
    by (simp add: get_mermaid_id_def Let_def is_word_char_separators)
  then show ?thesis by (simp add: re_sub_nonword_def clean_char_def)
qed

lemma clean_char_inj_on_plain:
  assumes "\<forall>c \<in> A. is_alnum_char c \<or> c = CHR ''/''"
  shows "inj_on clean_char A"
  using assms is_word_char_separators
  unfolding inj_on_def clean_char_def is_alnum_char_def
  by (auto split: if_splits)


section \<open>Properties of pruning\<close>

lemma has_component_in_subtree_iff:
  "has_component_in_subtree n = contains_component n"
  "any_child_has_component cs = (\<exists>d \<in> set (descendants_list cs). has_component d)"
proof (induction n and cs rule: has_component_in_subtree_any_child_has_component.induct)
  case (1 nm p ty cs hc)
  then show ?case by (simp add: contains_component_def)
next
  case 2
  then show ?case by simp
next
  case (3 child rest)
  then show ?case by (auto simp: contains_component_def)
qed

lemma descendants_trans:
  "d \<in> set (descendants n) \<Longrightarrow> set (descendants d) \<subseteq> set (descendants n)"
  "d \<in> set (descendants_list cs) \<Longrightarrow> set (descendants d) \<subseteq> set (descendants_list cs)"
proof (induction n and cs rule: descendants_descendants_list.induct)
  case (1 nm p ty cs hc)
  then show ?case by simp
next
  case 2
  then show ?case by simp
next
  case (3 child rest)
  then show ?case by auto
qed

lemma contains_component_up:
  assumes "d \<in> set (descendants n)" and "contains_component d"
  shows "contains_component n"
  using assms descendants_trans(1) [OF assms(1)]
  unfolding contains_component_def by blast

lemma prune_keeps_fields:
  "name (prune_tree n) = name n" "path (prune_tree n) = path n"
  "node_type (prune_tree n) = node_type n" "has_component (prune_tree n) = has_component n"
  "children (prune_tree n) = prune_children (children n)"
  by (cases n; simp)+

lemma descendants_prune:
  "descendants (prune_tree n) = map prune_tree (filter has_component_in_subtree (descendants n))"
  "descendants_list (prune_children cs) =
     map prune_tree (filter has_component_in_subtree (descendants_list cs))"
proof (induction n and cs rule: prune_tree_prune_children.induct)
  case (1 nm p ty cs hc)
  then show ?case by simp
next
  case 2
  then show ?case by simp
next
  case (3 child rest)
  show ?case
  proof (cases "has_component_in_subtree child")
    case True
    with 3 show ?thesis by simp
  next
    case False
    then have "\<forall>d \<in> set (descendants child). \<not> has_component_in_subtree d"
      using contains_component_up unfolding has_component_in_subtree_iff by blast
    then have "filter has_component_in_subtree (descendants child) = []"
      by (simp add: filter_empty_conv)
    with False 3 show ?thesis by simp
  qed
qed

lemma has_component_in_subtree_prune:
  "has_component_in_subtree (prune_tree n) = has_component_in_subtree n"
  "any_child_has_component (prune_children cs) = any_child_has_component cs"
  by (induction n and cs rule: prune_tree_prune_children.induct) auto

lemma prune_idem:
  "prune_tree (prune_tree n) = prune_tree n"
  "prune_children (prune_children cs) = prune_children cs"
  by (induction n and cs rule: prune_tree_prune_children.induct)
     (auto simp: has_component_in_subtree_prune)

text \<open>
  Claim C2. The nodes below the root of a pruned tree are, in the same order, the
  pruned forms of exactly those nodes below the root of the given tree that have a
  component themselves or somewhere below them; this is what
  \<^term>\<open>has_component_in_subtree\<close> computes. The root is returned whatever it
  holds, with its name, path, type and flag unchanged.
\<close>

theorem prune_tree_survivors:
  "descendants (prune_tree root_node) =
     map prune_tree
       (filter (\<lambda>n. has_component n \<or> (\<exists>d \<in> set (descendants n). has_component d))
          (descendants root_node))
   \<and> (\<forall>n. has_component_in_subtree n
          = (has_component n \<or> (\<exists>d \<in> set (descendants n). has_component d)))
   \<and> name (prune_tree root_node) = name root_node
   \<and> path (prune_tree root_node) = path root_node
   \<and> node_type (prune_tree root_node) = node_type root_node
   \<and> has_component (prune_tree root_node) = has_component root_node"
proof -
  have q: "has_component_in_subtree n
             = (has_component n \<or> (\<exists>d \<in> set (descendants n). has_component d))" for n
    by (simp add: has_component_in_subtree_iff(1) contains_component_def)
  have "filter has_component_in_subtree (descendants root_node)
          = filter (\<lambda>n. has_component n \<or> (\<exists>d \<in> set (descendants n). has_component d))
              (descendants root_node)"
    by (rule filter_cong) (simp_all only: q)
  with descendants_prune(1) [of root_node]
  have d: "descendants (prune_tree root_node) =
     map prune_tree
       (filter (\<lambda>n. has_component n \<or> (\<exists>d \<in> set (descendants n). has_component d))
          (descendants root_node))"
    by (simp only:)
  from d q prune_keeps_fields(1-4) [of root_node] show ?thesis by blast
qed

text \<open>
  A page three levels down, beside an empty directory: the chain of its ancestors
  and the page survive, the empty directory does not. A root with nothing below it
  comes back as it is.
\<close>

theorem prune_tree_survivors_witness:
  "map path (descendants deep_tree)
     = [''app/unused'', ''app/blog'', ''app/blog/[slug]'', ''app/blog/[slug]/page.tsx'']
   \<and> map path (descendants (prune_tree deep_tree))
     = [''app/blog'', ''app/blog/[slug]'', ''app/blog/[slug]/page.tsx'']
   \<and> prune_tree (NextjsNode_init ''app'' ''app'' Folder) = NextjsNode_init ''app'' ''app'' Folder"
proof -
  have a: "map path (descendants deep_tree)
     = [''app/unused'', ''app/blog'', ''app/blog/[slug]'', ''app/blog/[slug]/page.tsx'']"
    by code_simp
  have b: "map path (map prune_tree
       (filter (\<lambda>n. has_component n \<or> (\<exists>d \<in> set (descendants n). has_component d))
          (descendants deep_tree)))
     = [''app/blog'', ''app/blog/[slug]'', ''app/blog/[slug]/page.tsx'']"
    by code_simp
  have c: "prune_tree (NextjsNode_init ''app'' ''app'' Folder) = NextjsNode_init ''app'' ''app'' Folder"
    by code_simp
  from prune_tree_survivors [of deep_tree]
  have "descendants (prune_tree deep_tree) =
     map prune_tree
       (filter (\<lambda>n. has_component n \<or> (\<exists>d \<in> set (descendants n). has_component d))
          (descendants deep_tree))"
    by blast
  with b have "map path (descendants (prune_tree deep_tree))
     = [''app/blog'', ''app/blog/[slug]'', ''app/blog/[slug]/page.tsx'']"
    by (simp only:)
  with a c show ?thesis by blast
qed

text \<open>Claim C3. Pruning a pruned tree changes nothing.\<close>

theorem prune_tree_idempotent: "prune_tree (prune_tree n) = prune_tree n"
  by (rule prune_idem(1))

section \<open>Properties of the diagram emitter\<close>

lemma visit_children_eq:
  "visit_children i cs (e, q) =
     (e @ map (\<lambda>c. ''    '' @ i @ '' --> '' @ get_mermaid_id c) cs, q @ cs)"
  by (induction cs arbitrary: e q) (simp_all add: Let_def)

lemma passed_simps:
  "passed [] visited = []"
  "get_mermaid_id node \<in> visited \<Longrightarrow> passed (node # queue) visited = passed queue visited"
  "get_mermaid_id node \<notin> visited \<Longrightarrow>
     passed (node # queue) visited
       = node # passed (queue @ children node) (insert (get_mermaid_id node) visited)"
  by (simp_all add: passed_def)

lemma emit_all_Nil: "emit_all [] acc = acc"
  by (simp add: emit_all_def)

lemma emit_all_Cons: "emit_all ns (emit_all [n] acc) = emit_all (n # ns) acc"
  by (simp add: emit_all_def)

lemma edge_line_fun:
  "edge_line n = (\<lambda>c. ''    '' @ get_mermaid_id n @ '' --> '' @ get_mermaid_id c)"
  by (rule ext) (simp add: edge_line_def)

lemma bfs_loop_step:
  "get_mermaid_id node \<notin> visited \<Longrightarrow>
   bfs_loop (node # queue) visited acc
     = bfs_loop (queue @ children node) (insert (get_mermaid_id node) visited)
         (emit_all [node] acc)"
  by (cases acc)
     (simp add: Let_def visit_children_eq emit_all_def decl_line_def style_line_def
        edge_line_fun)

text \<open>The loop adds the lines of the nodes that pass the check, and nothing else.\<close>

lemma bfs_loop_closed_form:
  "bfs_loop queue visited acc = emit_all (passed queue visited) acc"
proof (induction queue visited arbitrary: acc rule: bfs_trace.induct)
  case (1 visited)
  show ?case by (simp add: passed_simps emit_all_Nil)
next
  case (2 node queue visited)
  show ?case
  proof (cases "get_mermaid_id node \<in> visited")
    case True
    with 2(1) show ?thesis by (simp add: passed_simps)
  next
    case False
    let ?q = "queue @ children node" and ?v = "insert (get_mermaid_id node) visited"
    have "bfs_loop (node # queue) visited acc = bfs_loop ?q ?v (emit_all [node] acc)"
      by (rule bfs_loop_step [OF False])
    also have "\<dots> = emit_all (passed ?q ?v) (emit_all [node] acc)"
      by (rule 2(2) [OF False])
    also have "\<dots> = emit_all (node # passed ?q ?v) acc"
      by (rule emit_all_Cons)
    also have "\<dots> = emit_all (passed (node # queue) visited) acc"
      using False by (simp add: passed_simps)
    finally show ?thesis .
  qed
qed

text \<open>The queue discipline yields the level-by-level order.\<close>

lemma passed_append:
  "passed (q @ r) visited =
     (let kept = first_seen q visited
      in kept @ passed (r @ concat (map children kept))
                  (visited \<union> set (map get_mermaid_id kept)))"
proof (induction q arbitrary: r visited)
  case Nil
  show ?case by simp
next
  case (Cons n q)
  show ?case
  proof (cases "get_mermaid_id n \<in> visited")
    case True
    with Cons [of r visited] show ?thesis by (simp add: passed_simps)
  next
    case False
    with Cons [of "r @ children n" "insert (get_mermaid_id n) visited"]
    show ?thesis by (simp add: passed_simps Let_def)
  qed
qed

lemma passed_breadth_first: "passed queue visited = breadth_first queue visited"
proof (induction queue visited rule: breadth_first.induct)
  case (1 level seen)
  show ?case
  proof (cases "level = []")
    case True
    then show ?thesis by (simp add: passed_simps)
  next
    case False
    from passed_append [of level "[]" seen] 1 [OF False refl] False
    show ?thesis by (simp add: Let_def)
  qed
qed

lemma visited_nodes_passed: "visited_nodes root_node = passed [root_node] {}"
  by (simp add: visited_nodes_def passed_def)

lemma style_nonempty: "get_mermaid_style n \<noteq> [] \<longleftrightarrow> node_type n \<noteq> Folder"
  by (cases "node_type n") (simp_all add: get_mermaid_style_def Let_def)

lemma passed_distinct:
  "distinct (map get_mermaid_id (passed queue visited)) \<and>
   set (map get_mermaid_id (passed queue visited)) \<inter> visited = {}"
proof (induction queue visited rule: bfs_trace.induct)
  case (1 visited)
  show ?case by (simp add: passed_simps)
next
  case (2 node queue visited)
  show ?case
  proof (cases "get_mermaid_id node \<in> visited")
    case True
    with 2(1) show ?thesis by (simp add: passed_simps)
  next
    case False
    with 2(2) show ?thesis by (auto simp: passed_simps)
  qed
qed

lemma trace_nodes:
  "map fst (bfs_trace queue visited) = queue @ concat (map children (passed queue visited))"
proof (induction queue visited rule: bfs_trace.induct)
  case (1 visited)
  show ?case by (simp add: passed_simps)
next
  case (2 node queue visited)
  show ?case
  proof (cases "get_mermaid_id node \<in> visited")
    case True
    with 2(1) show ?thesis by (simp add: passed_simps)
  next
    case False
    with 2(2) show ?thesis by (simp add: passed_simps)
  qed
qed

lemma trace_ids:
  "get_mermaid_id ` fst ` set (bfs_trace queue visited)
     \<subseteq> visited \<union> get_mermaid_id ` set (passed queue visited)"
proof (induction queue visited rule: bfs_trace.induct)
  case (1 visited)
  show ?case by simp
next
  case (2 node queue visited)
  show ?case
  proof (cases "get_mermaid_id node \<in> visited")
    case True
    with 2(1) show ?thesis by (auto simp: passed_simps)
  next
    case False
    with 2(2) show ?thesis by (auto simp: passed_simps)
  qed
qed

lemma descendants_list_append:
  "descendants_list (xs @ ys) = descendants_list xs @ descendants_list ys"
  by (induction xs) simp_all

lemma descendants_children: "descendants n = descendants_list (children n)"
  by (cases n) simp

text \<open>When no two nodes share an identifier, every node is visited, once.\<close>

lemma passed_all:
  "distinct (map get_mermaid_id (descendants_list queue)) \<Longrightarrow>
   get_mermaid_id ` set (descendants_list queue) \<inter> visited = {} \<Longrightarrow>
   set (passed queue visited) = set (descendants_list queue)
   \<and> length (passed queue visited) = length (descendants_list queue)"
proof (induction queue visited rule: bfs_trace.induct)
  case (1 visited)
  show ?case by (simp add: passed_simps)
next
  case (2 node queue visited)
  let ?q = "queue @ children node" and ?v = "insert (get_mermaid_id node) visited"
  define A where "A = descendants node"
  define B where "B = descendants_list queue"
  have dn: "descendants_list (node # queue) = node # A @ B"
    by (simp add: A_def B_def)
  have dl: "descendants_list ?q = B @ A"
    by (simp add: descendants_list_append descendants_children A_def B_def)
  from 2(3) have p1: "distinct (map get_mermaid_id (node # A @ B))"
    unfolding dn .
  from 2(4) have p2: "get_mermaid_id ` set (node # A @ B) \<inter> visited = {}"
    unfolding dn .
  from p2 have nv: "get_mermaid_id node \<notin> visited" by auto
  from p1 have d: "distinct (map get_mermaid_id (B @ A))"
    by auto
  from p1 p2 have i: "get_mermaid_id ` set (B @ A) \<inter> ?v = {}"
    by auto
  from 2(2) [OF nv] d i
  have ih: "set (passed ?q ?v) = set (B @ A) \<and> length (passed ?q ?v) = length (B @ A)"
    unfolding dl by blast
  have "passed (node # queue) visited = node # passed ?q ?v"
    using nv by (simp add: passed_simps)
  with ih show ?case unfolding dn by auto
qed

text \<open>Rules that evaluate the emitter on a given tree.\<close>

lemmas emitter_eval =
  twin_tree_def twin_first_def twin_second_def twin_layout_def deep_tree_def
  dequeued_nodes_def visited_nodes_def bfs_loop_closed_form emit_all_def passed_def
  edge_line_def decl_line_def style_line_def get_mermaid_style_def get_mermaid_label_def
  get_mermaid_id_map clean_char_def is_word_char_def breadth_first.simps [of "_ # _"]
  breadth_first.simps [of "[]"] newline_def Let_def

lemma str_join_terminated:
  "str_join sep (x # xs) @ sep = concat (map (\<lambda>l. l @ sep) (x # xs))"
  by (induction xs arbitrary: x) simp_all

text \<open>Two lists of the same distinct nodes give the same counts.\<close>

lemma same_nodes_sum:
  fixes f :: "'a \<Rightarrow> nat"
  assumes "distinct xs" and "distinct ys" and "set xs = set ys"
  shows "sum_list (map f xs) = sum_list (map f ys)"
  using assms by (simp add: sum_list_distinct_conv_sum_set)

lemma same_nodes_filter:
  assumes "distinct xs" and "distinct ys" and "set xs = set ys"
  shows "length (filter P xs) = length (filter P ys)"
proof -
  have "length (filter P zs) = card {x \<in> set zs. P x}" if "distinct zs" for zs :: "'a list"
    using that distinct_card [of "filter P zs"] by simp
  with assms show ?thesis by simp
qed

lemma collision_free_counts:
  assumes d: "distinct (map get_mermaid_id (root_node # descendants root_node))"
  shows "length (concat (map (\<lambda>n. map (edge_line n) (children n)) (breadth_first [root_node] {})))
           = length (tree_links root_node)"
    and "length (filter (\<lambda>n. node_type n \<noteq> Folder) (breadth_first [root_node] {}))
           = length (non_folder_nodes root_node)"
proof -
  let ?bf = "breadth_first [root_node] {}" and ?all = "root_node # descendants root_node"
  from d passed_all [of "[root_node]" "{}"] have s: "set ?bf = set ?all"
    by (simp add: passed_breadth_first)
  from passed_distinct [of "[root_node]" "{}"] have dbf: "distinct ?bf"
    by (auto simp: passed_breadth_first dest: distinct_map [THEN iffD1])
  from d have dall: "distinct ?all"
    using distinct_map by blast
  have "length (concat (map (\<lambda>n. map (edge_line n) (children n)) ?bf))
          = sum_list (map (\<lambda>n. length (children n)) ?bf)"
    by (simp add: length_concat comp_def)
  also have "\<dots> = sum_list (map (\<lambda>n. length (children n)) ?all)"
    by (rule same_nodes_sum [OF dbf dall s])
  also have "\<dots> = length (tree_links root_node)"
    unfolding tree_links_def by (simp add: length_concat comp_def)
  finally show "length (concat (map (\<lambda>n. map (edge_line n) (children n)) ?bf))
                  = length (tree_links root_node)" .
  show "length (filter (\<lambda>n. node_type n \<noteq> Folder) ?bf) = length (non_folder_nodes root_node)"
    unfolding non_folder_nodes_def by (rule same_nodes_filter [OF dbf dall s])
qed

text \<open>The diagrams of the two example trees, character by character.\<close>

lemma deep_tree_diagram:
  "generate_mermaid (prune_tree deep_tree) =
     ''flowchart TD'' @ [CHR 0x0A]
     @ ''    app['' @ [CHR 0x22] @ ''app'' @ [CHR 0x22] @ '']'' @ [CHR 0x0A]
     @ ''    app_blog['' @ [CHR 0x22] @ ''blog'' @ [CHR 0x22] @ '']'' @ [CHR 0x0A]
     @ ''    app_blog__slug_['' @ [CHR 0x22] @ ''[slug]'' @ [CHR 0x22] @ '']'' @ [CHR 0x0A]
     @ ''    app_blog__slug__page_tsx['' @ [CHR 0x22] @ ''page.tsx'' @ [CHR 0x22] @ '']'' @ [CHR 0x0A]
     @ ''    app --> app_blog'' @ [CHR 0x0A]
     @ ''    app_blog --> app_blog__slug_'' @ [CHR 0x0A]
     @ ''    app_blog__slug_ --> app_blog__slug__page_tsx'' @ [CHR 0x0A]
     @ ''    style app_blog__slug_ fill:#9cf,stroke:#69c,stroke-width:1px'' @ [CHR 0x0A]
     @ ''    style app_blog__slug__page_tsx fill:#9f9,stroke:#6c6,stroke-width:1px''"
  by (simp add: generate_mermaid_def emitter_eval dquote_def)

lemma twin_tree_diagram:
  "generate_mermaid twin_tree =
     ''flowchart TD'' @ [CHR 0x0A]
     @ ''    app['' @ [CHR 0x22] @ ''app'' @ [CHR 0x22] @ '']'' @ [CHR 0x0A]
     @ ''    app_x_y['' @ [CHR 0x22] @ ''x-y'' @ [CHR 0x22] @ '']'' @ [CHR 0x0A]
     @ ''    app_x_y_page_tsx['' @ [CHR 0x22] @ ''page.tsx'' @ [CHR 0x22] @ '']'' @ [CHR 0x0A]
     @ ''    app --> app_x_y'' @ [CHR 0x0A]
     @ ''    app --> app_x_y'' @ [CHR 0x0A]
     @ ''    app_x_y --> app_x_y_page_tsx'' @ [CHR 0x0A]
     @ ''    style app_x_y_page_tsx fill:#9f9,stroke:#6c6,stroke-width:1px''"
  by (simp add: generate_mermaid_def emitter_eval dquote_def)

text \<open>
  Claim C6 as stated fails on a tree in which two nodes share an identifier. The tree
  of the project with the directories \<open>x-y\<close> and \<open>x_y\<close>, which pruning leaves as it
  is, has four parent-child links and two nodes that are not folders; its diagram
  has three edge lines and one style line, since the node of \<open>x_y\<close> is dropped with
  its link to \<open>layout.tsx\<close>, and \<open>layout.tsx\<close> is never reached.
\<close>

theorem colliding_nodes_lose_lines:
  "prune_tree twin_tree = twin_tree
   \<and> length (tree_links twin_tree) = 4
   \<and> map path (non_folder_nodes twin_tree) = [''app/x-y/page.tsx'', ''app/x_y/layout.tsx'']
   \<and> generate_mermaid twin_tree =
       ''flowchart TD'' @ [CHR 0x0A]
       @ ''    app['' @ [CHR 0x22] @ ''app'' @ [CHR 0x22] @ '']'' @ [CHR 0x0A]
       @ ''    app_x_y['' @ [CHR 0x22] @ ''x-y'' @ [CHR 0x22] @ '']'' @ [CHR 0x0A]
       @ ''    app_x_y_page_tsx['' @ [CHR 0x22] @ ''page.tsx'' @ [CHR 0x22] @ '']'' @ [CHR 0x0A]
       @ ''    app --> app_x_y'' @ [CHR 0x0A]
       @ ''    app --> app_x_y'' @ [CHR 0x0A]
       @ ''    app_x_y --> app_x_y_page_tsx'' @ [CHR 0x0A]
       @ ''    style app_x_y_page_tsx fill:#9f9,stroke:#6c6,stroke-width:1px''
   \<and> length (edges (bfs_loop [twin_tree] {}
                \<lparr>mermaid_lines = [''flowchart TD''], edges = [], styles = []\<rparr>)) = 3
   \<and> styles (bfs_loop [twin_tree] {}
                \<lparr>mermaid_lines = [''flowchart TD''], edges = [], styles = []\<rparr>)
       = [''    style app_x_y_page_tsx fill:#9f9,stroke:#6c6,stroke-width:1px'']"
proof -
  have a: "prune_tree twin_tree = twin_tree"
    by (simp add: emitter_eval)
  have b: "length (tree_links twin_tree) = 4"
    by (simp add: tree_links_def emitter_eval)
  have c: "map path (non_folder_nodes twin_tree) = [''app/x-y/page.tsx'', ''app/x_y/layout.tsx'']"
    by (simp add: non_folder_nodes_def emitter_eval)
  have d: "length (edges (bfs_loop [twin_tree] {}
                \<lparr>mermaid_lines = [''flowchart TD''], edges = [], styles = []\<rparr>)) = 3"
    by (simp add: emitter_eval)
  have e: "styles (bfs_loop [twin_tree] {}
                \<lparr>mermaid_lines = [''flowchart TD''], edges = [], styles = []\<rparr>)
       = [''    style app_x_y_page_tsx fill:#9f9,stroke:#6c6,stroke-width:1px'']"
    by (simp add: emitter_eval)
  from a b c twin_tree_diagram d e show ?thesis by (intro conjI)
qed

text \<open>
  Claim C6, amended. The text is the header line, then one declaration line for each
  visited node in breadth-first order (level by level, left to right, a node being
  visited when its identifier has not been seen before), then the edge lines of the
  visited nodes, one for each child and in the same order, then one style line for
  each visited node that is not a folder; the lines are separated by newlines, so
  that the text followed by a newline is the sequence of the lines, each ended by a
  newline. When no two nodes of the tree share an identifier, every node is visited,
  once, and there are as many edge lines as parent-child links and as many style
  lines as nodes that are not folders.
\<close>

theorem generate_mermaid_layout:
  "generate_mermaid root_node =
     str_join [newline]
       ([''flowchart TD'']
        @ map decl_line (breadth_first [root_node] {})
        @ concat (map (\<lambda>n. map (edge_line n) (children n)) (breadth_first [root_node] {}))
        @ map style_line (filter (\<lambda>n. node_type n \<noteq> Folder) (breadth_first [root_node] {})))
   \<and> visited_nodes root_node = breadth_first [root_node] {}
   \<and> (distinct (map get_mermaid_id (root_node # descendants root_node)) \<longrightarrow>
         set (breadth_first [root_node] {}) = set (root_node # descendants root_node)
         \<and> length (breadth_first [root_node] {}) = Suc (length (descendants root_node)))
   \<and> generate_mermaid root_node @ [newline] =
       concat (map (\<lambda>l. l @ [newline])
         ([''flowchart TD'']
          @ map decl_line (breadth_first [root_node] {})
          @ concat (map (\<lambda>n. map (edge_line n) (children n)) (breadth_first [root_node] {}))
          @ map style_line
              (filter (\<lambda>n. node_type n \<noteq> Folder) (breadth_first [root_node] {}))))
   \<and> (distinct (map get_mermaid_id (root_node # descendants root_node)) \<longrightarrow>
         length (concat (map (\<lambda>n. map (edge_line n) (children n)) (breadth_first [root_node] {})))
           = length (tree_links root_node)
         \<and> length (filter (\<lambda>n. node_type n \<noteq> Folder) (breadth_first [root_node] {}))
           = length (non_folder_nodes root_node))"
proof -
  let ?lines = "map decl_line (breadth_first [root_node] {})
        @ concat (map (\<lambda>n. map (edge_line n) (children n)) (breadth_first [root_node] {}))
        @ map style_line (filter (\<lambda>n. node_type n \<noteq> Folder) (breadth_first [root_node] {}))"
  have a: "generate_mermaid root_node = str_join [newline] ([''flowchart TD''] @ ?lines)"
    unfolding generate_mermaid_def bfs_loop_closed_form passed_breadth_first
    by (simp add: emit_all_def style_nonempty)
  have b: "visited_nodes root_node = breadth_first [root_node] {}"
    by (simp only: visited_nodes_passed passed_breadth_first)
  have c: "set (breadth_first [root_node] {}) = set (root_node # descendants root_node)
         \<and> length (breadth_first [root_node] {}) = Suc (length (descendants root_node))"
    if "distinct (map get_mermaid_id (root_node # descendants root_node))"
    using that passed_all [of "[root_node]" "{}"]
    by (simp add: passed_breadth_first)
  have "str_join [newline] (''flowchart TD'' # ?lines) @ [newline]
          = concat (map (\<lambda>l. l @ [newline]) (''flowchart TD'' # ?lines))"
    by (rule str_join_terminated)
  with a have d: "generate_mermaid root_node @ [newline]
          = concat (map (\<lambda>l. l @ [newline]) ([''flowchart TD''] @ ?lines))"
    by simp
  from a b c d collision_free_counts [of root_node] show ?thesis by blast
qed

text \<open>
  The diagram of the pruned example tree, whose nodes have distinct identifiers: all
  four nodes are visited, with three edge lines for three links and two style lines.
\<close>

theorem generate_mermaid_layout_witness:
  "distinct (map get_mermaid_id (prune_tree deep_tree # descendants (prune_tree deep_tree)))
   \<and> map path (breadth_first [prune_tree deep_tree] {})
     = [''app'', ''app/blog'', ''app/blog/[slug]'', ''app/blog/[slug]/page.tsx'']
   \<and> length (breadth_first [prune_tree deep_tree] {})
     = Suc (length (descendants (prune_tree deep_tree)))
   \<and> length (tree_links (prune_tree deep_tree)) = 3
   \<and> length (non_folder_nodes (prune_tree deep_tree)) = 2
   \<and> generate_mermaid (prune_tree deep_tree) =
     ''flowchart TD'' @ [CHR 0x0A]
     @ ''    app['' @ [CHR 0x22] @ ''app'' @ [CHR 0x22] @ '']'' @ [CHR 0x0A]
     @ ''    app_blog['' @ [CHR 0x22] @ ''blog'' @ [CHR 0x22] @ '']'' @ [CHR 0x0A]
     @ ''    app_blog__slug_['' @ [CHR 0x22] @ ''[slug]'' @ [CHR 0x22] @ '']'' @ [CHR 0x0A]
     @ ''    app_blog__slug__page_tsx['' @ [CHR 0x22] @ ''page.tsx'' @ [CHR 0x22] @ '']'' @ [CHR 0x0A]
     @ ''    app --> app_blog'' @ [CHR 0x0A]
     @ ''    app_blog --> app_blog__slug_'' @ [CHR 0x0A]
     @ ''    app_blog__slug_ --> app_blog__slug__page_tsx'' @ [CHR 0x0A]
     @ ''    style app_blog__slug_ fill:#9cf,stroke:#69c,stroke-width:1px'' @ [CHR 0x0A]
     @ ''    style app_blog__slug__page_tsx fill:#9f9,stroke:#6c6,stroke-width:1px''"
proof -
  let ?t = "prune_tree deep_tree"
  let ?bf = "breadth_first [?t] {}"
  have d: "distinct (map get_mermaid_id (?t # descendants ?t))"
    by (simp add: emitter_eval)
  have a: "map path ?bf = [''app'', ''app/blog'', ''app/blog/[slug]'', ''app/blog/[slug]/page.tsx'']"
    by (simp add: emitter_eval)
  have e: "length (concat (map (\<lambda>n. map (edge_line n) (children n)) ?bf)) = 3"
    by (simp add: emitter_eval)
  have f: "length (filter (\<lambda>n. node_type n \<noteq> Folder) ?bf) = 2"
    by (simp add: emitter_eval)
  have b: "str_join [newline]
       ([''flowchart TD'']
        @ map decl_line ?bf
        @ concat (map (\<lambda>n. map (edge_line n) (children n)) ?bf)
        @ map style_line (filter (\<lambda>n. node_type n \<noteq> Folder) ?bf))
     = ''flowchart TD'' @ [CHR 0x0A]
     @ ''    app['' @ [CHR 0x22] @ ''app'' @ [CHR 0x22] @ '']'' @ [CHR 0x0A]
     @ ''    app_blog['' @ [CHR 0x22] @ ''blog'' @ [CHR 0x22] @ '']'' @ [CHR 0x0A]
     @ ''    app_blog__slug_['' @ [CHR 0x22] @ ''[slug]'' @ [CHR 0x22] @ '']'' @ [CHR 0x0A]
     @ ''    app_blog__slug__page_tsx['' @ [CHR 0x22] @ ''page.tsx'' @ [CHR 0x22] @ '']'' @ [CHR 0x0A]
     @ ''    app --> app_blog'' @ [CHR 0x0A]
     @ ''    app_blog --> app_blog__slug_'' @ [CHR 0x0A]
     @ ''    app_blog__slug_ --> app_blog__slug__page_tsx'' @ [CHR 0x0A]
     @ ''    style app_blog__slug_ fill:#9cf,stroke:#69c,stroke-width:1px'' @ [CHR 0x0A]
     @ ''    style app_blog__slug__page_tsx fill:#9f9,stroke:#6c6,stroke-width:1px''"
    by (simp add: emitter_eval dquote_def)
  note g = generate_mermaid_layout [of ?t]
  from g have "generate_mermaid ?t =
     str_join [newline]
       ([''flowchart TD'']
        @ map decl_line ?bf
        @ concat (map (\<lambda>n. map (edge_line n) (children n)) ?bf)
        @ map style_line (filter (\<lambda>n. node_type n \<noteq> Folder) ?bf))"
    by blast
  with b have t: "generate_mermaid ?t =
     ''flowchart TD'' @ [CHR 0x0A]
     @ ''    app['' @ [CHR 0x22] @ ''app'' @ [CHR 0x22] @ '']'' @ [CHR 0x0A]
     @ ''    app_blog['' @ [CHR 0x22] @ ''blog'' @ [CHR 0x22] @ '']'' @ [CHR 0x0A]
     @ ''    app_blog__slug_['' @ [CHR 0x22] @ ''[slug]'' @ [CHR 0x22] @ '']'' @ [CHR 0x0A]
     @ ''    app_blog__slug__page_tsx['' @ [CHR 0x22] @ ''page.tsx'' @ [CHR 0x22] @ '']'' @ [CHR 0x0A]
     @ ''    app --> app_blog'' @ [CHR 0x0A]
     @ ''    app_blog --> app_blog__slug_'' @ [CHR 0x0A]
     @ ''    app_blog__slug_ --> app_blog__slug__page_tsx'' @ [CHR 0x0A]
     @ ''    style app_blog__slug_ fill:#9cf,stroke:#69c,stroke-width:1px'' @ [CHR 0x0A]
     @ ''    style app_blog__slug__page_tsx fill:#9f9,stroke:#6c6,stroke-width:1px''"
    by (simp only:)
  from g d have l: "length ?bf = Suc (length (descendants ?t))"
    by blast
  from g d have "length (concat (map (\<lambda>n. map (edge_line n) (children n)) ?bf))
                   = length (tree_links ?t)"
    and "length (filter (\<lambda>n. node_type n \<noteq> Folder) ?bf) = length (non_folder_nodes ?t)"
    by blast+
  with e f have c: "length (tree_links ?t) = 3" "length (non_folder_nodes ?t) = 2"
    by simp_all
  from d a l c t show ?thesis by (intro conjI)
qed

text \<open>
  Claim C9 as stated fails. In the tree of the project with the directories \<open>x-y\<close>
  and \<open>x_y\<close>, the node of \<open>x_y\<close> is taken from the queue, its identifier is that of
  \<open>x-y\<close>, and it is dropped before its children are looked at: no edge line is
  written for its child \<open>layout.tsx\<close>. Pruning leaves this tree as it is.
\<close>

theorem skipped_node_emits_no_edges:
  "prune_tree twin_tree = twin_tree
   \<and> twin_second \<in> set (dequeued_nodes twin_tree)
   \<and> twin_layout \<in> set (children twin_second)
   \<and> edge_line twin_second twin_layout
       \<notin> set (edges (bfs_loop [twin_tree] {}
                \<lparr>mermaid_lines = [''flowchart TD''], edges = [], styles = []\<rparr>))"
  by (simp add: emitter_eval)

text \<open>
  Claim C9, amended. The loop writes one declaration line for each visited node, and
  the visited nodes have pairwise distinct identifiers, so an identifier has at most
  one declaration line and at most one style line; every node taken from the queue
  has the identifier of a visited node. The edge lines are those of the visited
  nodes, one for each of their children, and these children, after the root, are the
  nodes taken from the queue, whether they are visited or dropped later. A node that
  is dropped adds no line.
\<close>

theorem generate_mermaid_once_per_identifier:
  "bfs_loop [root_node] {} \<lparr>mermaid_lines = [''flowchart TD''], edges = [], styles = []\<rparr>
     = \<lparr>mermaid_lines = ''flowchart TD'' # map decl_line (visited_nodes root_node),
        edges = concat (map (\<lambda>n. map (edge_line n) (children n)) (visited_nodes root_node)),
        styles = map style_line
                   (filter (\<lambda>n. node_type n \<noteq> Folder) (visited_nodes root_node))\<rparr>
   \<and> distinct (map get_mermaid_id (visited_nodes root_node))
   \<and> dequeued_nodes root_node = root_node # concat (map children (visited_nodes root_node))
   \<and> set (map get_mermaid_id (dequeued_nodes root_node))
       = set (map get_mermaid_id (visited_nodes root_node))"
proof -
  have a: "bfs_loop [root_node] {} \<lparr>mermaid_lines = [''flowchart TD''], edges = [], styles = []\<rparr>
     = \<lparr>mermaid_lines = ''flowchart TD'' # map decl_line (visited_nodes root_node),
        edges = concat (map (\<lambda>n. map (edge_line n) (children n)) (visited_nodes root_node)),
        styles = map style_line
                   (filter (\<lambda>n. node_type n \<noteq> Folder) (visited_nodes root_node))\<rparr>"
    unfolding bfs_loop_closed_form visited_nodes_passed
    by (simp add: emit_all_def style_nonempty)
  have b: "distinct (map get_mermaid_id (visited_nodes root_node))"
    unfolding visited_nodes_passed using passed_distinct by blast
  have c: "dequeued_nodes root_node = root_node # concat (map children (visited_nodes root_node))"
    using trace_nodes [of "[root_node]" "{}"]
    by (simp only: dequeued_nodes_def visited_nodes_passed append_Cons append_Nil)
  have "set (map get_mermaid_id (dequeued_nodes root_node))
          \<subseteq> set (map get_mermaid_id (visited_nodes root_node))"
    unfolding dequeued_nodes_def visited_nodes_passed
    using trace_ids [of "[root_node]" "{}"] by (simp add: image_image)
  moreover have "set (visited_nodes root_node) \<subseteq> set (dequeued_nodes root_node)"
    unfolding dequeued_nodes_def visited_nodes_def by auto
  ultimately have d: "set (map get_mermaid_id (dequeued_nodes root_node))
       = set (map get_mermaid_id (visited_nodes root_node))"
    by auto
  from a b c d show ?thesis by blast
qed

text \<open>The project with the directories \<open>x-y\<close> and \<open>x_y\<close>: four nodes leave the queue, three are visited.\<close>

theorem generate_mermaid_once_per_identifier_witness:
  "map path (dequeued_nodes twin_tree)
     = [''app'', ''app/x-y'', ''app/x_y'', ''app/x-y/page.tsx'']
   \<and> map get_mermaid_id (visited_nodes twin_tree) = [''app'', ''app_x_y'', ''app_x_y_page_tsx'']
   \<and> edges (bfs_loop [twin_tree] {}
              \<lparr>mermaid_lines = [''flowchart TD''], edges = [], styles = []\<rparr>)
     = [''    app --> app_x_y'', ''    app --> app_x_y'', ''    app_x_y --> app_x_y_page_tsx'']"
proof -
  have a: "map path (dequeued_nodes twin_tree)
     = [''app'', ''app/x-y'', ''app/x_y'', ''app/x-y/page.tsx'']"
    by (simp add: emitter_eval)
  have b: "map get_mermaid_id (visited_nodes twin_tree)
     = [''app'', ''app_x_y'', ''app_x_y_page_tsx'']"
    by (simp add: emitter_eval)
  have c: "concat (map (\<lambda>n. map (edge_line n) (children n)) (visited_nodes twin_tree))
     = [''    app --> app_x_y'', ''    app --> app_x_y'', ''    app_x_y --> app_x_y_page_tsx'']"
    by (simp add: emitter_eval)
  from generate_mermaid_once_per_identifier [of twin_tree]
  have "edges (bfs_loop [twin_tree] {}
              \<lparr>mermaid_lines = [''flowchart TD''], edges = [], styles = []\<rparr>)
     = concat (map (\<lambda>n. map (edge_line n) (children n)) (visited_nodes twin_tree))"
    by simp
  with c have "edges (bfs_loop [twin_tree] {}
              \<lparr>mermaid_lines = [''flowchart TD''], edges = [], styles = []\<rparr>)
     = [''    app --> app_x_y'', ''    app --> app_x_y'', ''    app_x_y --> app_x_y_page_tsx'']"
    by (simp only:)
  with a b show ?thesis by blast
qed

subsection \<open>Identifiers of walked paths\<close>

text \<open>
  Claim C1 as stated fails: the walk of a project \<open>app\<close> with the two directories
  \<open>x-y\<close> and \<open>x_y\<close> builds two nodes with distinct paths and one identifier.
\<close>

theorem get_mermaid_id_collision:
  "crawl_nextjs_project (single_root_env ''/home/u'' ''app'' twin_fs) ''app'' = Inr twin_tree
   \<and> children twin_tree = [twin_first, twin_second]
   \<and> path twin_first \<noteq> path twin_second
   \<and> get_mermaid_id twin_first = get_mermaid_id twin_second"
  by code_simp

text \<open>
  Claim C1, amended. Identifier generation is deterministic: the identifier of a node
  is a function of its path alone, one character at a time, a word character being
  kept and any other becoming an underscore. On paths made of letters, digits and the
  separator \<open>/\<close>, two nodes have the same identifier exactly when they have the same
  path. The diagram is a function of the tree, which emission does not change, and
  pruning the tree again before emitting it again gives the same text.
\<close>

theorem get_mermaid_id_injective_plain:
  "get_mermaid_id a = map clean_char (path a)
   \<and> ((\<forall>c \<in> set (path a). is_alnum_char c \<or> c = CHR ''/'')
        \<and> (\<forall>c \<in> set (path b). is_alnum_char c \<or> c = CHR ''/'')
        \<longrightarrow> (get_mermaid_id a = get_mermaid_id b \<longleftrightarrow> path a = path b))
   \<and> (path a = path b \<longrightarrow> get_mermaid_id a = get_mermaid_id b)
   \<and> generate_mermaid (prune_tree (prune_tree t)) = generate_mermaid (prune_tree t)"
proof -
  have "get_mermaid_id a = get_mermaid_id b \<longleftrightarrow> path a = path b"
    if h: "\<forall>c \<in> set (path a) \<union> set (path b). is_alnum_char c \<or> c = CHR ''/''"
  proof -
    from h have "inj_on clean_char (set (path a) \<union> set (path b))"
      by (rule clean_char_inj_on_plain)
    then have "map clean_char (path a) = map clean_char (path b) \<longleftrightarrow> path a = path b"
      by (rule inj_on_map_eq_map)
    then show ?thesis by (simp add: get_mermaid_id_map)
  qed
  moreover have "get_mermaid_id a = get_mermaid_id b" if "path a = path b"
    using that by (simp add: get_mermaid_id_map)
  moreover have "generate_mermaid (prune_tree (prune_tree t)) = generate_mermaid (prune_tree t)"
    by (simp only: prune_idem(1))
  ultimately show ?thesis using get_mermaid_id_map [of a] by blast
qed

text \<open>
  The directories \<open>app/about\<close> and \<open>app/blog\<close>; a directory whose name ends in the
  letter e with an acute accent, which is a letter and is kept; and the example tree,
  pruned twice and emitted.
\<close>

theorem get_mermaid_id_injective_plain_witness:
  "list_all (\<lambda>c. is_alnum_char c \<or> c = CHR ''/'') (path (NextjsNode_init ''about'' ''app/about'' Folder))
   \<and> list_all (\<lambda>c. is_alnum_char c \<or> c = CHR ''/'') (path (NextjsNode_init ''blog'' ''app/blog'' Folder))
   \<and> get_mermaid_id (NextjsNode_init ''about'' ''app/about'' Folder) = ''app_about''
   \<and> get_mermaid_id (NextjsNode_init ''about'' ''app/about'' Folder)
       \<noteq> get_mermaid_id (NextjsNode_init ''blog'' ''app/blog'' Folder)
   \<and> list_all (\<lambda>c. is_alnum_char c \<or> c = CHR ''/'') (''app/caf'' @ [CHR 0xE9])
   \<and> get_mermaid_id (NextjsNode_init (''caf'' @ [CHR 0xE9]) (''app/caf'' @ [CHR 0xE9]) Folder)
       = ''app_caf'' @ [CHR 0xE9]
   \<and> generate_mermaid (prune_tree (prune_tree deep_tree)) =
       ''flowchart TD'' @ [CHR 0x0A]
       @ ''    app['' @ [CHR 0x22] @ ''app'' @ [CHR 0x22] @ '']'' @ [CHR 0x0A]
       @ ''    app_blog['' @ [CHR 0x22] @ ''blog'' @ [CHR 0x22] @ '']'' @ [CHR 0x0A]
       @ ''    app_blog__slug_['' @ [CHR 0x22] @ ''[slug]'' @ [CHR 0x22] @ '']'' @ [CHR 0x0A]
       @ ''    app_blog__slug__page_tsx['' @ [CHR 0x22] @ ''page.tsx'' @ [CHR 0x22] @ '']'' @ [CHR 0x0A]
       @ ''    app --> app_blog'' @ [CHR 0x0A]
       @ ''    app_blog --> app_blog__slug_'' @ [CHR 0x0A]
       @ ''    app_blog__slug_ --> app_blog__slug__page_tsx'' @ [CHR 0x0A]
       @ ''    style app_blog__slug_ fill:#9cf,stroke:#69c,stroke-width:1px'' @ [CHR 0x0A]
       @ ''    style app_blog__slug__page_tsx fill:#9f9,stroke:#6c6,stroke-width:1px''"
proof -
  let ?a = "NextjsNode_init ''about'' ''app/about'' Folder"
  let ?b = "NextjsNode_init ''blog'' ''app/blog'' Folder"
  let ?c = "NextjsNode_init (''caf'' @ [CHR 0xE9]) (''app/caf'' @ [CHR 0xE9]) Folder"
  have la: "list_all (\<lambda>c. is_alnum_char c \<or> c = CHR ''/'') (path ?a)"
    and lb: "list_all (\<lambda>c. is_alnum_char c \<or> c = CHR ''/'') (path ?b)"
    and lc: "list_all (\<lambda>c. is_alnum_char c \<or> c = CHR ''/'') (''app/caf'' @ [CHR 0xE9])"
    by code_simp+
  have ha: "\<forall>c \<in> set (path ?a). is_alnum_char c \<or> c = CHR ''/''"
    and hb: "\<forall>c \<in> set (path ?b). is_alnum_char c \<or> c = CHR ''/''"
    using la lb unfolding list_all_iff by blast+
  have ne: "path ?a \<noteq> path ?b" by (simp add: NextjsNode_init_def)
  have cl: "map clean_char (path ?a) = ''app_about''" by code_simp
  have cc: "map clean_char (path ?c) = ''app_caf'' @ [CHR 0xE9]" by code_simp
  note th = get_mermaid_id_injective_plain [of ?a ?b deep_tree]
  from th ha hb ne
  have "get_mermaid_id ?a \<noteq> get_mermaid_id ?b" and "get_mermaid_id ?a = map clean_char (path ?a)"
    by blast+
  with cl have i: "get_mermaid_id ?a \<noteq> get_mermaid_id ?b" "get_mermaid_id ?a = ''app_about''"
    by (blast, simp only:)
  from get_mermaid_id_injective_plain [of ?c ?c deep_tree]
  have "get_mermaid_id ?c = map clean_char (path ?c)" by blast
  with cc have j: "get_mermaid_id ?c = ''app_caf'' @ [CHR 0xE9]" by (simp only:)
  from th have "generate_mermaid (prune_tree (prune_tree deep_tree))
                  = generate_mermaid (prune_tree deep_tree)"
    by blast
  with deep_tree_diagram have k: "generate_mermaid (prune_tree (prune_tree deep_tree)) =
       ''flowchart TD'' @ [CHR 0x0A]
       @ ''    app['' @ [CHR 0x22] @ ''app'' @ [CHR 0x22] @ '']'' @ [CHR 0x0A]
       @ ''    app_blog['' @ [CHR 0x22] @ ''blog'' @ [CHR 0x22] @ '']'' @ [CHR 0x0A]
       @ ''    app_blog__slug_['' @ [CHR 0x22] @ ''[slug]'' @ [CHR 0x22] @ '']'' @ [CHR 0x0A]
       @ ''    app_blog__slug__page_tsx['' @ [CHR 0x22] @ ''page.tsx'' @ [CHR 0x22] @ '']'' @ [CHR 0x0A]
       @ ''    app --> app_blog'' @ [CHR 0x0A]
       @ ''    app_blog --> app_blog__slug_'' @ [CHR 0x0A]
       @ ''    app_blog__slug_ --> app_blog__slug__page_tsx'' @ [CHR 0x0A]
       @ ''    style app_blog__slug_ fill:#9cf,stroke:#69c,stroke-width:1px'' @ [CHR 0x0A]
       @ ''    style app_blog__slug__page_tsx fill:#9f9,stroke:#6c6,stroke-width:1px''"
    by (simp only:)
  from la lb i(2) i(1) lc j k show ?thesis by (intro conjI)
qed

section \<open>Properties of the tree builder and of the command line\<close>

lemma os_path_relpath_error: "os_path_relpath d p start = Inl ex \<Longrightarrow> ex = ValueError"
  by (auto simp: os_path_relpath_def Let_def split: if_splits)

lemma crawl_directory_error:
  "crawl_directory d root_path root_name triple st = Inl ex \<Longrightarrow> ex = ValueError"
  unfolding crawl_directory_def
  by (auto simp: Let_def split: prod.splits sum.splits dest: os_path_relpath_error)

lemma crawl_walk_error:
  "crawl_walk d root_path root_name triples st = Inl ex \<Longrightarrow> ex = ValueError"
proof (induction triples arbitrary: st)
  case Nil
  then show ?case by simp
next
  case (Cons triple rest)
  show ?case
  proof (cases "crawl_directory d root_path root_name triple st")
    case (Inl e')
    with Cons.prems have "e' = ex" by simp
    with Inl show ?thesis using crawl_directory_error by blast
  next
    case (Inr st')
    with Cons.prems have "crawl_walk d root_path root_name rest st' = Inl ex" by simp
    then show ?thesis by (rule Cons.IH)
  qed
qed

lemma crawl_exit_status:
  assumes "crawl_nextjs_project e root_path = Inl (SystemExit n)"
  shows "n = 1"
proof (cases "lookup e root_path")
  case None
  with assms show ?thesis
    by (simp add: crawl_nextjs_project_def crawl_final_state_def)
next
  case (Some entry)
  with assms have "\<exists>d rn ts st. crawl_walk d root_path rn ts st = Inl (SystemExit n)"
    by (auto simp: crawl_nextjs_project_def crawl_final_state_def Let_def split: sum.splits)
  then show ?thesis using crawl_walk_error by blast
qed

lemma main_after_failed_crawl:
  assumes "2 \<le> length argv" and "crawl_nextjs_project e (argv ! 1) = Inl ex"
  shows "main e argv = \<lparr>written = None, exit_code = 1\<rparr>"
proof (cases ex)
  case (SystemExit n)
  with assms(2) crawl_exit_status have "n = 1" by blast
  with SystemExit assms show ?thesis by (simp add: main_def Let_def)
next
  case ValueError
  with assms show ?thesis by (simp add: main_def Let_def)
next
  case OSError
  with assms show ?thesis by (simp add: main_def Let_def)
qed

lemma main_written:
  assumes "written (main e argv) = Some f"
  shows "\<exists>root_node. crawl_nextjs_project e (argv ! 1) = Inr root_node
            \<and> snd f = generate_mermaid (prune_tree root_node)"
proof (cases "length argv < 2")
  case True
  with assms show ?thesis by (simp add: main_def)
next
  case False
  show ?thesis
  proof (cases "crawl_nextjs_project e (argv ! 1)")
    case (Inl ex)
    with False main_after_failed_crawl [of argv e ex] assms show ?thesis by simp
  next
    case (Inr root_node)
    with False assms have "snd f = generate_mermaid (prune_tree root_node)"
      by (auto simp: main_def Let_def save_to_file_def split: if_splits)
    with Inr show ?thesis by blast
  qed
qed

text \<open>
  Claim C5. When the root path does not exist, \<^term>\<open>crawl_nextjs_project\<close> ends in
  \<^verbatim>\<open>sys.exit(1)\<close> and returns no tree, and the run writes no file and leaves with
  status 1. More generally, a run whose crawl fails writes no file and leaves with
  status 1, and a file is only ever written with the diagram of the pruned tree of a
  crawl that returned.
\<close>

theorem missing_root_is_terminal:
  "(lookup e root_path = None \<longrightarrow>
      crawl_nextjs_project e root_path = Inl (SystemExit 1)
      \<and> main e (prog # root_path # rest) = \<lparr>written = None, exit_code = 1\<rparr>)
   \<and> (\<forall>argv ex. 2 \<le> length argv \<and> crawl_nextjs_project e (argv ! 1) = Inl ex
         \<longrightarrow> main e argv = \<lparr>written = None, exit_code = 1\<rparr>)
   \<and> (\<forall>argv f. written (main e argv) = Some f
         \<longrightarrow> (\<exists>root_node. crawl_nextjs_project e (argv ! 1) = Inr root_node
                \<and> snd f = generate_mermaid (prune_tree root_node)))"
proof -
  have a: "crawl_nextjs_project e root_path = Inl (SystemExit 1)"
    if "lookup e root_path = None"
    using that by (simp add: crawl_nextjs_project_def crawl_final_state_def)
  have b: "main e (prog # root_path # rest) = \<lparr>written = None, exit_code = 1\<rparr>"
    if "lookup e root_path = None"
    using a [OF that] by (simp add: main_def Let_def)
  from a b main_after_failed_crawl main_written show ?thesis by blast
qed

text \<open>A run on a path the file system does not hold.\<close>

theorem missing_root_is_terminal_witness:
  "lookup (single_root_env ''/home/u'' ''app'' about_fs) ''missing'' = None
   \<and> crawl_nextjs_project (single_root_env ''/home/u'' ''app'' about_fs) ''missing''
       = Inl (SystemExit 1)
   \<and> main (single_root_env ''/home/u'' ''app'' about_fs) [''nextjs_crawler.py'', ''missing'']
       = \<lparr>written = None, exit_code = 1\<rparr>"
proof -
  have h: "lookup (single_root_env ''/home/u'' ''app'' about_fs) ''missing'' = None"
    by (simp add: single_root_env_def)
  from missing_root_is_terminal
         [of "single_root_env ''/home/u'' ''app'' about_fs" "''missing''"
             "''nextjs_crawler.py''" "[]"] h
  show ?thesis by blast
qed

text \<open>
  Claim C4 holds on an ordinary root: in the project \<open>app\<close> with \<open>about/page.tsx\<close>,
  the two directories and the page file have one entry each.
\<close>

lemma crawl_app_counts:
  "crawl_final_state (single_root_env ''/home/u'' ''app'' about_fs) ''app'' =
     Inr \<lparr>root = Node ''app'' ''app'' Folder
                   [Node ''about'' ''app/about'' Folder
                      [Node ''page.tsx'' ''app/about/page.tsx'' Page [] True] False] False,
          detached = [],
          path_to_node = [(''app'', Ref 0 []), (''app/about'', Ref 0 [0]),
                          (''app/about/page.tsx'', Ref 0 [0, 0])]\<rparr>
   \<and> count_directories about_fs + count_qualifying_files about_fs = 3"
  by code_simp

text \<open>
  Claim C4 fails on the root path \<open>.\<close>: the code breaks its own rule. The directory
  \<open>about\<close> is registered as \<open>./about\<close> when the root is visited and looked up as
  \<open>about\<close> when the walk enters it, so a second node is created for it, attached to
  nothing, and the page below it never reaches the tree of the root. The dictionary
  ends with four entries for two directories and one page file.
\<close>

theorem dot_root_duplicates_directory:
  "crawl_final_state (single_root_env ''/home/u'' ''.'' about_fs) ''.'' =
     Inr \<lparr>root = Node ''.'' ''.'' Folder [Node ''about'' ''./about'' Folder [] False] False,
          detached = [Node ''about'' ''about'' Folder
                        [Node ''page.tsx'' ''about/page.tsx'' Page [] True] False],
          path_to_node = [(''.'', Ref 0 []), (''./about'', Ref 0 [0]),
                          (''about'', Ref 1 []), (''about/page.tsx'', Ref 1 [0])]\<rparr>
   \<and> count_directories about_fs + count_qualifying_files about_fs = 3
   \<and> crawl_nextjs_project (single_root_env ''/home/u'' ''.'' about_fs) ''.'' =
       Inr (Node ''.'' ''.'' Folder [Node ''about'' ''./about'' Folder [] False] False)"
  by code_simp

end
